theory Spec2Isabelle
  imports Main "HOL-Library.Word" "HOL-Library.Signed_Division"
begin

section \<open>Machine types, failures and memory\<close>

text \<open>
  The C++ sources use \<open>uint8_t\<close>, \<open>uint32_t\<close>, \<open>int32_t\<close>/\<open>int\<close>/\<open>LONG\<close>.
  All 32-bit quantities are \<open>32 word\<close>; a signed one is read with \<open>sint\<close>, an
  unsigned one with \<open>unat\<close>. Mixed arithmetic of \<open>int\<close> and \<open>uint32_t\<close> is
  unsigned in C++, which is plain word arithmetic here.
\<close>

type_synonym uint8_t = "8 word"
type_synonym uint16_t = "16 word"
type_synonym uint32_t = "32 word"
type_synonym int32_t = "32 word"

text \<open>
  What can go wrong in the sources: a thrown \<open>std::runtime_error\<close> (with its message),
  a failed \<open>assert\<close> (aborts the process, only when assertions are compiled in), an
  access outside an allocation and an integer division by zero (both undefined
  behaviour in C++; the model stops there).
\<close>

datatype error = RuntimeError string | AssertionFailed | MemoryFault | DivideByZero

definition bindE :: "error + 'a \<Rightarrow> ('a \<Rightarrow> error + 'b) \<Rightarrow> error + 'b" where
  "bindE m k = (case m of Inl e \<Rightarrow> Inl e | Inr a \<Rightarrow> k a)"

text \<open>
  \<open>CopyMemory (dst + d, src + s, n)\<close> and \<open>SecureZeroMemory (dst + d, n)\<close> on
  allocations modelled as byte lists.
\<close>

definition CopyMemory :: "uint8_t list \<Rightarrow> nat \<Rightarrow> uint8_t list \<Rightarrow> nat \<Rightarrow> nat \<Rightarrow> error + uint8_t list" where
  "CopyMemory dst d src s n =
     (if d + n \<le> length dst \<and> s + n \<le> length src
      then Inr (take d dst @ take n (drop s src) @ drop (d + n) dst)
      else Inl MemoryFault)"

definition SecureZeroMemory :: "uint8_t list \<Rightarrow> nat \<Rightarrow> nat \<Rightarrow> error + uint8_t list" where
  "SecureZeroMemory dst d n =
     (if d + n \<le> length dst
      then Inr (take d dst @ replicate n 0 @ drop (d + n) dst)
      else Inl MemoryFault)"

text \<open>
  Counted loops \<open>for (int i = lo; i <= hi; i++)\<close> and \<open>for (int i = lo; i < hi; i++)\<close>
  whose body may fail.
\<close>

function for_le :: "int \<Rightarrow> int \<Rightarrow> (int \<Rightarrow> 's \<Rightarrow> error + 's) \<Rightarrow> 's \<Rightarrow> error + 's" where
  "for_le i hi body s =
     (if i \<le> hi
      then (case body i s of Inl e \<Rightarrow> Inl e | Inr s' \<Rightarrow> for_le (i + 1) hi body s')
      else Inr s)"
  by pat_completeness auto
termination
  by (relation "measure (\<lambda>(i, hi, body, s). nat (hi + 1 - i))") auto

function for_lt :: "int \<Rightarrow> int \<Rightarrow> (int \<Rightarrow> 's \<Rightarrow> error + 's) \<Rightarrow> 's \<Rightarrow> error + 's" where
  "for_lt i hi body s =
     (if i < hi
      then (case body i s of Inl e \<Rightarrow> Inl e | Inr s' \<Rightarrow> for_lt (i + 1) hi body s')
      else Inr s)"
  by pat_completeness auto
termination
  by (relation "measure (\<lambda>(i, hi, body, s). nat (hi - i))") auto

section \<open>Frame (Frame.cpp)\<close>

record AVPicture =
  data0 :: "uint8_t list"
  linesize0 :: int32_t

text \<open>The Windows \<open>BITMAPINFOHEADER\<close>, field for field as the interop code declares it.\<close>

record BITMAPINFOHEADER =
  biSize :: uint32_t
  biWidth :: int32_t
  biHeight :: int32_t
  biPlanes :: uint16_t
  biBitCount :: uint16_t
  biCompression :: uint32_t
  biSizeImage :: uint32_t
  biXPelsPerMeter :: int32_t
  biYPelsPerMeter :: int32_t
  biClrUsed :: uint32_t
  biClrImportant :: uint32_t

definition BI_RGB :: uint32_t where
  "BI_RGB = 0"

definition sizeof_BITMAPINFOHEADER :: nat where
  "sizeof_BITMAPINFOHEADER = 40"

text \<open>The header both the constructor and \<open>ToBmp\<close> write after zeroing the structure.\<close>

definition rgb24Header :: "uint32_t \<Rightarrow> uint32_t \<Rightarrow> BITMAPINFOHEADER" where
  "rgb24Header width height =
     \<lparr>biSize = of_nat sizeof_BITMAPINFOHEADER, biWidth = width, biHeight = height,
      biPlanes = 1, biBitCount = 24, biCompression = BI_RGB, biSizeImage = 0,
      biXPelsPerMeter = 0, biYPelsPerMeter = 0, biClrUsed = 0, biClrImportant = 0\<rparr>"

text \<open>
  The members of the class; a member \<open>name_\<close> of the source is \<open>name_m\<close> here, as a
  name cannot end with an underscore.
\<close>

record Frame =
  width_m :: uint32_t
  height_m :: uint32_t
  pixelsPtr_m :: "uint8_t list"
  bmpInfo_m :: BITMAPINFOHEADER

text \<open>
  Modelled from the spec: \<open>GetPadding\<close> is declared in frame.h, which is not among
  the sources. The spec says the padding keeps each row aligned to a 4-byte boundary
  (bytes per row rounded up to the next multiple of 4); the interop code computes the
  same quantity as \<open>stride % 4 > 0 ? 4 - stride % 4 : 0\<close>.
\<close>

definition GetPadding :: "int32_t \<Rightarrow> uint32_t" where
  "GetPadding lineSize =
     (if 0 < sint lineSize smod 4 then word_of_int (4 - sint lineSize smod 4) else 0)"

text \<open>
  Modelled from the spec: the accessors \<open>Width()\<close> and \<open>Height()\<close> are declared in
  frame.h, which is not among the sources. The spec calls them a lock-free read of the
  immutable width and height.
\<close>

definition Width :: "Frame \<Rightarrow> uint32_t" where
  "Width f = width_m f"

definition Height :: "Frame \<Rightarrow> uint32_t" where
  "Height f = height_m f"

text \<open>
  One iteration of the loop of \<open>Frame::Update\<close>: copy source row \<open>height_ - y - 1\<close> to
  stored row \<open>y\<close>, then zero the padding behind it. The offsets are computed in
  32-bit unsigned arithmetic; the byte count of the copy is the \<open>int32_t\<close> line size
  converted to \<open>SIZE_T\<close>, so a negative line size asks for a copy larger than any
  allocation.
\<close>

definition Update_row :: "uint32_t \<Rightarrow> AVPicture \<Rightarrow> nat \<Rightarrow> uint8_t list \<Rightarrow> error + uint8_t list" where
  "Update_row height avPicture y mem =
     (let lineSize = linesize0 avPicture;
          padding = GetPadding lineSize;
          dst = unat ((lineSize + padding) * of_nat y);
          src = unat ((height - of_nat y - 1) * lineSize)
      in if sint lineSize < 0 then Inl MemoryFault
         else bindE (CopyMemory mem dst (data0 avPicture) src (unat lineSize))
                (\<lambda>mem'. SecureZeroMemory mem' (dst + unat lineSize) (unat padding)))"

function Update_loop :: "uint32_t \<Rightarrow> AVPicture \<Rightarrow> nat \<Rightarrow> uint8_t list \<Rightarrow> error + uint8_t list" where
  "Update_loop height avPicture y mem =
     (if y < unat height
      then (case Update_row height avPicture y mem of
              Inl e \<Rightarrow> Inl e
            | Inr mem' \<Rightarrow> Update_loop height avPicture (Suc y) mem')
      else Inr mem)"
  by pat_completeness auto
termination
  by (relation "measure (\<lambda>(height, avPicture, y, mem). unat height - y)") auto

definition Update :: "Frame \<Rightarrow> AVPicture \<Rightarrow> error + Frame" where
  "Update f avPicture =
     bindE (Update_loop (height_m f) avPicture 0 (pixelsPtr_m f))
       (\<lambda>mem. Inr (f\<lparr>pixelsPtr_m := mem\<rparr>))"

text \<open>
  The constructor. \<open>new uint8_t[n]\<close> leaves the bytes uninitialised; the model fills
  them with zero, and \<open>Update\<close> then overwrites the allocation.
\<close>

definition Frame_ctor :: "uint32_t \<Rightarrow> uint32_t \<Rightarrow> AVPicture \<Rightarrow> error + Frame" where
  "Frame_ctor width height avPicture =
     (let lineSize = linesize0 avPicture;
          padding = GetPadding lineSize
      in Update \<lparr>width_m = width, height_m = height,
                 pixelsPtr_m = replicate (unat (height * (lineSize + padding))) 0,
                 bmpInfo_m = rgb24Header width height\<rparr> avPicture)"

text \<open>
  \<open>Frame::ToBmp\<close>: the snapshot is a header followed by \<open>height_m * width_m * 3\<close> bytes
  copied from the pixel storage. \<open>alloc_ok\<close> says whether \<open>CoTaskMemAlloc\<close> returned
  memory. The output pointer is modelled as the returned value.
\<close>

record Bmp =
  bmpHeader :: BITMAPINFOHEADER
  bmpPixels :: "uint8_t list"

definition ToBmp :: "bool \<Rightarrow> Frame \<Rightarrow> error + Bmp" where
  "ToBmp alloc_ok f =
     (if alloc_ok
      then bindE (CopyMemory (replicate (unat (height_m f * width_m f * 3)) 0) 0
                    (pixelsPtr_m f) 0 (unat (height_m f * width_m f * 3)))
             (\<lambda>px. Inr \<lparr>bmpHeader = rgb24Header (width_m f) (height_m f), bmpPixels = px\<rparr>)
      else Inl (RuntimeError ''CoTaskMemAlloc failed''))"

subsection \<open>Frame::Draw\<close>

record RECT =
  rcLeft :: int32_t
  rcTop :: int32_t
  rcRight :: int32_t
  rcBottom :: int32_t

text \<open>
  What the window system answers for the \<open>HWND\<close>: the client rectangle of
  \<open>GetClientRect\<close> and the device context of \<open>BeginPaint\<close> (\<open>None\<close> is a null handle).
\<close>

record Window =
  clientRect :: RECT
  hdc :: "nat option"

text \<open>The arguments of the two library calls \<open>Draw\<close> makes.\<close>

record StretchDIB_args =
  biDst :: BITMAPINFOHEADER
  DstX :: int32_t
  DstY :: int32_t
  DstXE :: int32_t
  DstYE :: int32_t
  biSrc :: BITMAPINFOHEADER
  SrcX :: int32_t
  SrcY :: int32_t
  SrcXE :: int32_t
  SrcYE :: int32_t

record DrawDibDraw_args =
  xDst :: int32_t
  yDst :: int32_t
  dxDst :: int32_t
  dyDst :: int32_t
  lpbi :: BITMAPINFOHEADER
  lpBits :: "uint8_t list"
  xSrc :: int32_t
  ySrc :: int32_t
  dxSrc :: int32_t
  dySrc :: int32_t

text \<open>
  \<open>StretchDIB\<close> is a library routine: it is a parameter of the model. Given the call's
  arguments, the destination bytes and the source bytes, it answers which destination
  offsets it writes and with what; \<open>apply_writes\<close> performs them on the allocation.
\<close>

type_synonym blitter = "StretchDIB_args \<Rightarrow> uint8_t list \<Rightarrow> uint8_t list \<Rightarrow> nat \<Rightarrow> uint8_t option"

definition apply_writes :: "(nat \<Rightarrow> uint8_t option) \<Rightarrow> uint8_t list \<Rightarrow> uint8_t list" where
  "apply_writes w mem = map (\<lambda>i. case w i of None \<Rightarrow> mem ! i | Some b \<Rightarrow> b) [0..<length mem]"

text \<open>Lines 64 to 79: the overlay block. It yields the call made and the primary's bytes after it.\<close>

definition pipBlit :: "blitter \<Rightarrow> Frame \<Rightarrow> Frame option \<Rightarrow> int32_t \<Rightarrow> int32_t \<Rightarrow> int32_t \<Rightarrow>
    error + (StretchDIB_args option \<times> uint8_t list)" where
  "pipBlit StretchDIB f pip pip_width pip_top pip_left =
     (case pip of
        None \<Rightarrow> Inr (None, pixelsPtr_m f)
      | Some p \<Rightarrow>
          if 0 < sint pip_width \<and> width_m p = 0 then Inl DivideByZero
          else
            (let pip_height = (if sint pip_width \<le> 0 then height_m p
                               else pip_width * height_m p div width_m p);
                 pip_width = (if sint pip_width \<le> 0 then width_m p else pip_width);
                 pip_left = (if sint pip_left < 0 then (width_m f - pip_width) div 2 else pip_left);
                 pip_top = (if sint pip_top < 0 then (height_m f - pip_height) div 2 else pip_top);
                 args = \<lparr>biDst = bmpInfo_m f, DstX = pip_left,
                         DstY = height_m p - pip_top - pip_height,
                         DstXE = pip_width, DstYE = pip_height,
                         biSrc = bmpInfo_m p, SrcX = 0, SrcY = 0,
                         SrcXE = width_m p, SrcYE = height_m p\<rparr>
             in Inr (Some args,
                     apply_writes (StretchDIB args (pixelsPtr_m f) (pixelsPtr_m p)) (pixelsPtr_m f))))"

text \<open>Lines 81 to 91: the source rectangle \<open>(xSrc, ySrc, dxSrc, dySrc)\<close>.\<close>

definition srcRect :: "Frame \<Rightarrow> int32_t \<Rightarrow> int32_t \<times> int32_t \<times> int32_t \<times> int32_t" where
  "srcRect f zoom =
     (if 1 < sint zoom
      then (let dxSrc = width_m f div zoom;
                dySrc = height_m f div zoom
            in ((width_m f - dxSrc) div 2, (height_m f - dySrc) div 2, dxSrc, dySrc))
      else (0, 0, width_m f, height_m f))"

text \<open>\<open>Frame::brightenUp\<close>: three bytes from \<open>ptr\<close> on; the comparison is on promoted ints.\<close>

definition brighten :: "uint8_t \<Rightarrow> uint8_t \<Rightarrow> uint8_t" where
  "brighten b v = (if uint b < 0xFF - uint v then b + v else 0xFF)"

definition brightenByte :: "uint8_t \<Rightarrow> nat \<Rightarrow> uint8_t list \<Rightarrow> error + uint8_t list" where
  "brightenByte v ptr mem =
     (if ptr < length mem then Inr (mem[ptr := brighten (mem ! ptr) v]) else Inl MemoryFault)"

definition brightenUp :: "uint8_t list \<Rightarrow> nat \<Rightarrow> uint8_t \<Rightarrow> error + uint8_t list" where
  "brightenUp mem ptr v =
     bindE (brightenByte v ptr mem)
       (\<lambda>m1. bindE (brightenByte v (ptr + 1) m1) (brightenByte v (ptr + 2)))"

text \<open>
  Lines 93 to 114: the crosshair block. The loop counters are C++ ints; the byte offset
  \<open>(width_m * (yCntr + y) + xCntr + x) * 3\<close> is computed in 32-bit unsigned arithmetic
  and added to the pointer as an unsigned value.
\<close>

definition crossOffset :: "uint32_t \<Rightarrow> uint32_t \<Rightarrow> int \<Rightarrow> int \<Rightarrow> nat" where
  "crossOffset width height x y =
     unat ((width * (height div 2 + word_of_int y) + width div 2 + word_of_int x) * 3)"

definition drawCross :: "uint32_t \<Rightarrow> uint32_t \<Rightarrow> int32_t \<Rightarrow> int32_t \<Rightarrow> uint8_t list \<Rightarrow> error + uint8_t list" where
  "drawCross width height zoom cross mem =
     (if 0 < sint cross
      then if zoom = 0 then Inl DivideByZero
           else
             (let cross = sint cross sdiv sint zoom;
                  cw = (if cross sdiv 8 < 1 then 1 else cross sdiv 8);
                  stamp = (\<lambda>x y m. brightenUp m (crossOffset width height x y) 0x6F)
              in bindE (for_le (- cross) cross (\<lambda>x. for_le (- cw) cw (\<lambda>y. stamp x y)) mem)
                   (\<lambda>m1. bindE (for_lt (- cross) (- cw) (\<lambda>y. for_le (- cw) cw (\<lambda>x. stamp x y)) m1)
                      (for_le (cw + 1) cross (\<lambda>y. for_le (- cw) cw (\<lambda>x. stamp x y)))))
      else Inr mem)"

text \<open>
  \<open>Frame::Draw\<close>. \<open>dbg\<close> says whether assertions are compiled in. The result is the
  frame as \<open>Draw\<close> leaves it and the library calls it made; after the early return for
  an empty client rectangle there are none.
\<close>

record Draw_result =
  drawnFrame :: Frame
  stretchDIB :: "StretchDIB_args option"
  drawDibDraw :: "DrawDibDraw_args option"

definition Draw :: "blitter \<Rightarrow> bool \<Rightarrow> Window \<Rightarrow> Frame \<Rightarrow> int32_t \<Rightarrow> int32_t \<Rightarrow> Frame option \<Rightarrow>
    int32_t \<Rightarrow> int32_t \<Rightarrow> int32_t \<Rightarrow> error + Draw_result" where
  "Draw StretchDIB dbg wnd f zoom cross pip pip_width pip_top pip_left =
     (let rc = clientRect wnd
      in if rcRight rc = rcLeft rc
         then Inr \<lparr>drawnFrame = f, stretchDIB = None, drawDibDraw = None\<rparr>
         else if dbg \<and> hdc wnd = None then Inl AssertionFailed
         else
           bindE (pipBlit StretchDIB f pip pip_width pip_top pip_left)
             (\<lambda>(stretched, mem1).
                case srcRect f zoom of (xs, ys, dxs, dys) \<Rightarrow>
                  bindE (drawCross (width_m f) (height_m f) zoom cross mem1)
                    (\<lambda>mem2. Inr \<lparr>drawnFrame = f\<lparr>pixelsPtr_m := mem2\<rparr>,
                                 stretchDIB = stretched,
                                 drawDibDraw = Some
                                   \<lparr>xDst = rcLeft rc, yDst = rcTop rc,
                                    dxDst = rcRight rc - rcLeft rc,
                                    dyDst = rcBottom rc - rcTop rc,
                                    lpbi = bmpInfo_m f, lpBits = mem2,
                                    xSrc = xs, ySrc = ys, dxSrc = dxs, dySrc = dys\<rparr>\<rparr>)))"

section \<open>StreamPlayer (the facade and its exported entry points)\<close>

text \<open>A null pointer is \<open>None\<close>; a window handle or callback is otherwise an address.\<close>

record StreamPlayerParams =
  window :: "nat option"
  streamStartedCallback :: "nat option"
  streamStoppedCallback :: "nat option"
  streamFailedCallback :: "nat option"

record StreamPlayer =
  stopRequested_m :: bool
  stopRequestedPiP_m :: bool
  playerParams_m :: StreamPlayerParams
  framePtr_m :: "Frame option"
  framePiPPtr_m :: "Frame option"
  pip_width_m :: int32_t
  pip_top_m :: int32_t
  pip_left_m :: int32_t
  we_have_pip_m :: bool
  zoom_m :: int32_t
  cross_m :: int32_t

text \<open>
  \<open>StreamPlayer::Initialize\<close>: four assertions, then the parameters are stored and the
  configuration is reset. (The two \<open>SetWindowLongPtr\<close> calls act on the window system
  only and return no status that is looked at.)
\<close>

definition Initialize :: "bool \<Rightarrow> StreamPlayerParams \<Rightarrow> StreamPlayer \<Rightarrow> error + StreamPlayer" where
  "Initialize dbg params p =
     (if dbg \<and> window params = None then Inl AssertionFailed
      else if dbg \<and> streamStartedCallback params = None then Inl AssertionFailed
      else if dbg \<and> streamStoppedCallback params = None then Inl AssertionFailed
      else if dbg \<and> streamFailedCallback params = None then Inl AssertionFailed
      else Inr (p\<lparr>playerParams_m := params, pip_left_m := 0, pip_top_m := 0, pip_width_m := 0,
                  we_have_pip_m := False, zoom_m := 1, cross_m := 0\<rparr>))"

text \<open>
  The exported entry points wrap each call in \<open>try { ... } catch (std::runtime_error &)
  { return 1; } return 0;\<close>. A failed assertion is not an exception: it is not caught.
\<close>

definition exported :: "error + 'a \<Rightarrow> error + int32_t \<times> 'a option" where
  "exported r =
     (case r of
        Inl (RuntimeError m) \<Rightarrow> Inr (1, None)
      | Inl e \<Rightarrow> Inl e
      | Inr a \<Rightarrow> Inr (0, Some a))"

definition Initialize_exported :: "bool \<Rightarrow> StreamPlayerParams \<Rightarrow> StreamPlayer \<Rightarrow> error + int32_t \<times> StreamPlayer option" where
  "Initialize_exported dbg params p = exported (Initialize dbg params p)"

definition GetCurrentFrame :: "bool \<Rightarrow> StreamPlayer \<Rightarrow> error + Bmp" where
  "GetCurrentFrame alloc_ok p =
     (case framePtr_m p of
        None \<Rightarrow> Inl (RuntimeError ''no frame'')
      | Some f \<Rightarrow> ToBmp alloc_ok f)"

definition GetFrameSize :: "StreamPlayer \<Rightarrow> error + uint32_t \<times> uint32_t" where
  "GetFrameSize p =
     (case framePtr_m p of
        None \<Rightarrow> Inl (RuntimeError ''no frame'')
      | Some f \<Rightarrow> Inr (Width f, Height f))"

definition SetupPiP :: "int32_t \<Rightarrow> int32_t \<Rightarrow> int32_t \<Rightarrow> StreamPlayer \<Rightarrow> StreamPlayer" where
  "SetupPiP pip_width pip_top pip_left p =
     p\<lparr>pip_left_m := pip_left, pip_top_m := pip_top, pip_width_m := pip_width\<rparr>"

definition SetupZoom :: "int32_t \<Rightarrow> StreamPlayer \<Rightarrow> StreamPlayer" where
  "SetupZoom zoom p =
     (let p1 = p\<lparr>zoom_m := zoom\<rparr>
      in if sint (zoom_m p1) < 1 then p1\<lparr>zoom_m := 1\<rparr> else p1)"

definition SetupCross :: "int32_t \<Rightarrow> StreamPlayer \<Rightarrow> StreamPlayer" where
  "SetupCross cross p = p\<lparr>cross_m := cross\<rparr>"

text \<open>
  Modelled from the spec: the default arguments of \<open>Draw\<close> are declared in frame.h,
  which is not among the sources. The call \<open>Draw(window, zoom_, cross_)\<close> is taken to
  pass a null overlay (for which \<open>Draw\<close> reads none of the three overlay numbers), as
  the spec has the facade pass the overlay buffer only when the overlay is live. The rest
  is \<open>StreamPlayer::DrawFrame\<close> as written, run for each paint request.
\<close>

definition DrawFrame :: "blitter \<Rightarrow> bool \<Rightarrow> Window \<Rightarrow> StreamPlayer \<Rightarrow> error + StreamPlayer \<times> Draw_result option" where
  "DrawFrame StretchDIB dbg wnd p =
     (case framePtr_m p of
        None \<Rightarrow> Inr (p, None)
      | Some f \<Rightarrow>
          bindE (if we_have_pip_m p \<and> framePiPPtr_m p \<noteq> None
                 then Draw StretchDIB dbg wnd f (zoom_m p) (cross_m p) (framePiPPtr_m p)
                        (pip_width_m p) (pip_top_m p) (pip_left_m p)
                 else Draw StretchDIB dbg wnd f (zoom_m p) (cross_m p) None 0 0 0)
            (\<lambda>r. Inr (p\<lparr>framePtr_m := Some (drawnFrame r)\<rparr>, Some r)))"

subsection \<open>The decode loops\<close>

text \<open>
  The decoder and the other threads are outside the sources, so a run of a decode loop
  is driven by a script: whether the decoder opens, and for each iteration whether
  \<open>Stop\<close> ran on another thread since the last check, and what
  \<open>decoder.GetNextFrame\<close> did (threw a \<open>runtime_error\<close>, or left the frame pointer
  null or pointing to a frame). A script that ends while the loop is still going
  describes a run up to that moment; the result's flag says whether the function
  has returned. The messages posted to the host window are collected in order. (The
  query of the inter-frame delay and the sleep change nothing in the player.)
\<close>

datatype message = WM_INVALIDATE | WM_STREAMSTARTED | WM_STREAMSTOPPED | WM_STREAMFAILED

datatype next_frame = Throws | Leaves "Frame option"

datatype decoder_run = OpenThrows | Opened "(bool \<times> next_frame) list"

record 'p run_state =
  player :: 'p
  posted :: "message list"
  returned :: bool

fun Play_loop :: "(bool \<times> next_frame) list \<Rightarrow> bool \<Rightarrow> StreamPlayer \<Rightarrow> message list \<Rightarrow> StreamPlayer run_state" where
  "Play_loop [] firstFrame p ms = \<lparr>player = p, posted = ms, returned = False\<rparr>"
| "Play_loop ((stop, Throws) # rest) firstFrame p ms =
     \<lparr>player = p\<lparr>stopRequested_m := stopRequested_m p \<or> stop\<rparr>,
      posted = ms @ [WM_STREAMFAILED], returned = True\<rparr>"
| "Play_loop ((stop, Leaves fr) # rest) firstFrame p ms =
     (let p1 = p\<lparr>stopRequested_m := stopRequested_m p \<or> stop, framePtr_m := fr\<rparr>
      in if stopRequested_m p1 \<or> framePtr_m p1 = None
         then \<lparr>player = p1, posted = ms @ [WM_STREAMSTOPPED], returned = True\<rparr>
         else Play_loop rest False p1
                (ms @ [WM_INVALIDATE] @ (if firstFrame then [WM_STREAMSTARTED] else [])))"

definition Play :: "bool \<Rightarrow> decoder_run \<Rightarrow> StreamPlayer \<Rightarrow> StreamPlayer run_state" where
  "Play locked run p =
     (if locked then \<lparr>player = p, posted = [], returned = True\<rparr>
      else case run of
             OpenThrows \<Rightarrow> \<lparr>player = p, posted = [WM_STREAMFAILED], returned = True\<rparr>
           | Opened steps \<Rightarrow>
               Play_loop steps True (p\<lparr>stopRequested_m := False, framePtr_m := None\<rparr>) [])"

fun PlayPiP_loop :: "(bool \<times> next_frame) list \<Rightarrow> bool \<Rightarrow> StreamPlayer \<Rightarrow> message list \<Rightarrow> StreamPlayer run_state" where
  "PlayPiP_loop [] firstFrame p ms = \<lparr>player = p, posted = ms, returned = False\<rparr>"
| "PlayPiP_loop ((stop, Throws) # rest) firstFrame p ms =
     \<lparr>player = p\<lparr>stopRequestedPiP_m := stopRequestedPiP_m p \<or> stop, we_have_pip_m := False\<rparr>,
      posted = ms, returned = True\<rparr>"
| "PlayPiP_loop ((stop, Leaves fr) # rest) firstFrame p ms =
     (let p1 = p\<lparr>stopRequestedPiP_m := stopRequestedPiP_m p \<or> stop, framePiPPtr_m := fr\<rparr>
      in if stopRequestedPiP_m p1 \<or> framePiPPtr_m p1 = None
         then \<lparr>player = p1\<lparr>we_have_pip_m := False\<rparr>, posted = ms, returned = True\<rparr>
         else PlayPiP_loop rest False
                (if firstFrame then p1\<lparr>we_have_pip_m := True\<rparr> else p1) ms)"

definition PlayPiP :: "bool \<Rightarrow> decoder_run \<Rightarrow> StreamPlayer \<Rightarrow> StreamPlayer run_state" where
  "PlayPiP locked run p =
     (if locked then \<lparr>player = p, posted = [], returned = True\<rparr>
      else case run of
             OpenThrows \<Rightarrow> \<lparr>player = p\<lparr>we_have_pip_m := False\<rparr>, posted = [], returned = True\<rparr>
           | Opened steps \<Rightarrow>
               PlayPiP_loop steps True (p\<lparr>stopRequestedPiP_m := False, framePiPPtr_m := None\<rparr>) [])"

section \<open>Specification-side notions and sample inputs\<close>

text \<open>
  The spec's words for what \<open>Update\<close> leaves in the buffer: source row \<open>y\<close> of a
  picture with \<open>l\<close> bytes per line, and the image with the rows in reversed vertical
  order, each followed by \<open>pad\<close> zero bytes.
\<close>

definition sourceRow :: "nat \<Rightarrow> uint8_t list \<Rightarrow> nat \<Rightarrow> uint8_t list" where
  "sourceRow l src y = take l (drop (y * l) src)"

definition flipped_padded :: "nat \<Rightarrow> nat \<Rightarrow> nat \<Rightarrow> uint8_t list \<Rightarrow> uint8_t list" where
  "flipped_padded h l pad src =
     concat (map (\<lambda>y. sourceRow l src (h - 1 - y) @ replicate pad 0) [0..<h])"

text \<open>
  A picture matches a frame's buffer when its line size is not negative, the buffer
  holds exactly \<open>height\<close> rows of line size plus padding, that size fits the 32-bit
  arithmetic of the offsets, and the picture has \<open>height\<close> lines of data.
\<close>

definition matches :: "Frame \<Rightarrow> AVPicture \<Rightarrow> bool" where
  "matches f avPicture =
     (0 \<le> sint (linesize0 avPicture) \<and>
      length (pixelsPtr_m f) =
        unat (height_m f) * (unat (linesize0 avPicture) + unat (GetPadding (linesize0 avPicture))) \<and>
      unat (height_m f) * (unat (linesize0 avPicture) + unat (GetPadding (linesize0 avPicture))) < 2 ^ 32 \<and>
      unat (height_m f) * unat (linesize0 avPicture) \<le> length (data0 avPicture))"

text \<open>
  The crosshair as a set of offsets \<open>(dx, dy)\<close> from the centre: a horizontal bar of
  half-length \<open>c\<close> and half-width \<open>cw\<close>, and the parts of the vertical bar of
  half-length \<open>c\<close> and half-width \<open>cw\<close> above and below it.
\<close>

definition onCross :: "int \<Rightarrow> int \<Rightarrow> int \<Rightarrow> int \<Rightarrow> bool" where
  "onCross c cw dx dy =
     ((\<bar>dx\<bar> \<le> c \<and> \<bar>dy\<bar> \<le> cw) \<or> (\<bar>dx\<bar> \<le> cw \<and> cw < \<bar>dy\<bar> \<and> \<bar>dy\<bar> \<le> c))"

text \<open>
  A buffer of \<open>W\<close> by \<open>H\<close> pixels stored without row padding, in which the pixels
  whose offset from the centre \<open>(W div 2, H div 2)\<close> lies in \<open>A\<close> are brightened by
  \<open>0x6F\<close> once.
\<close>

definition painted :: "nat \<Rightarrow> nat \<Rightarrow> (int \<times> int) set \<Rightarrow> uint8_t list \<Rightarrow> uint8_t list" where
  "painted W H A mem =
     map (\<lambda>i. if (int ((i div 3) mod W) - int (W div 2), int ((i div 3) div W) - int (H div 2)) \<in> A
               then brighten (mem ! i) 0x6F else mem ! i) [0..<length mem]"

text \<open>
  Sample inputs: the player as the global object is before \<open>Initialize\<close> (static
  storage is zeroed, the constructor clears one flag), a \<open>StretchDIB\<close> that writes
  nothing, a window of 100 by 50, the frame the constructor builds from a black picture
  of \<open>w\<close> by \<open>h\<close> pixels with \<open>3 * w\<close> bytes per line, and two pictures of 2 by 2 pixels.
\<close>

definition StreamPlayer_ctor :: StreamPlayer where
  "StreamPlayer_ctor =
     \<lparr>stopRequested_m = False, stopRequestedPiP_m = False,
      playerParams_m = \<lparr>window = None, streamStartedCallback = None,
                        streamStoppedCallback = None, streamFailedCallback = None\<rparr>,
      framePtr_m = None, framePiPPtr_m = None, pip_width_m = 0, pip_top_m = 0,
      pip_left_m = 0, we_have_pip_m = False, zoom_m = 0, cross_m = 0\<rparr>"

definition noBlit :: blitter where
  "noBlit args dst src i = None"

definition window100x50 :: Window where
  "window100x50 = \<lparr>clientRect = \<lparr>rcLeft = 0, rcTop = 0, rcRight = 100, rcBottom = 50\<rparr>, hdc = Some 1\<rparr>"

definition blackFrame :: "uint32_t \<Rightarrow> uint32_t \<Rightarrow> Frame" where
  "blackFrame w h =
     \<lparr>width_m = w, height_m = h,
      pixelsPtr_m = replicate (unat (h * (3 * w + GetPadding (3 * w)))) 0,
      bmpInfo_m = rgb24Header w h\<rparr>"

definition picture2x2 :: AVPicture where
  "picture2x2 = \<lparr>data0 = [1, 2, 3, 4, 5, 6, 7, 8, 9, 10, 11, 12], linesize0 = 6\<rparr>"

definition picture2x2' :: AVPicture where
  "picture2x2' = \<lparr>data0 = [21, 22, 23, 24, 25, 26, 27, 28, 29, 30, 31, 32], linesize0 = 6\<rparr>"

text \<open>
  For \<open>Initialize\<close>: whether one of the four inputs is null, the player after a
  successful call, and two sample parameter blocks.
\<close>

definition anyNull :: "StreamPlayerParams \<Rightarrow> bool" where
  "anyNull params =
     (window params = None \<or> streamStartedCallback params = None \<or>
      streamStoppedCallback params = None \<or> streamFailedCallback params = None)"

definition configured :: "StreamPlayerParams \<Rightarrow> StreamPlayer \<Rightarrow> StreamPlayer" where
  "configured params p =
     p\<lparr>playerParams_m := params, pip_left_m := 0, pip_top_m := 0, pip_width_m := 0,
       we_have_pip_m := False, zoom_m := 1, cross_m := 0\<rparr>"

definition sampleParams :: StreamPlayerParams where
  "sampleParams = \<lparr>window = Some 1, streamStartedCallback = Some 2,
                    streamStoppedCallback = Some 3, streamFailedCallback = Some 4\<rparr>"

definition nullWindowParams :: StreamPlayerParams where
  "nullWindowParams = \<lparr>window = None, streamStartedCallback = Some 2,
                  streamStoppedCallback = Some 3, streamFailedCallback = Some 4\<rparr>"

text \<open>
  An iteration of a decode loop is a success when no stop was requested and the decoder
  left a frame.
\<close>

fun success :: "bool \<times> next_frame \<Rightarrow> bool" where
  "success (stop, Leaves (Some fr)) = (\<not> stop)"
| "success (stop, Leaves None) = False"
| "success (stop, Throws) = False"

text \<open>
  More sample inputs: a 2 by 2 frame with given storage, a decoder script of two
  successful iterations, and a player whose primary and overlay sessions both have a
  frame and whose overlay is live.
\<close>

definition frame2x2 :: "uint8_t list \<Rightarrow> Frame" where
  "frame2x2 px = \<lparr>width_m = 2, height_m = 2, pixelsPtr_m = px, bmpInfo_m = rgb24Header 2 2\<rparr>"

definition sampleSteps :: "(bool \<times> next_frame) list" where
  "sampleSteps = [(False, Leaves (Some (blackFrame 4 4))), (False, Leaves (Some (blackFrame 4 4)))]"

definition overlayLive :: StreamPlayer where
  "overlayLive = StreamPlayer_ctor\<lparr>framePtr_m := Some (blackFrame 8 8),
     framePiPPtr_m := Some (blackFrame 4 4), we_have_pip_m := True, zoom_m := 1\<rparr>"

text \<open>
  Readings of a \<open>Draw\<close> result: a byte of the stored frame, a byte of the image handed
  to \<open>DrawDibDraw\<close>, the destination rectangle handed to \<open>StretchDIB\<close> (origin and
  extent, as signed numbers), and a second \<open>Draw\<close> on the frame the first one left.
\<close>

definition storedByte :: "nat \<Rightarrow> error + Draw_result \<Rightarrow> error + uint8_t" where
  "storedByte i res = map_sum id (\<lambda>r. pixelsPtr_m (drawnFrame r) ! i) res"

definition shownByte :: "nat \<Rightarrow> error + Draw_result \<Rightarrow> error + uint8_t option" where
  "shownByte i res = map_sum id (\<lambda>r. map_option (\<lambda>d. lpBits d ! i) (drawDibDraw r)) res"

definition overlayRect :: "error + Draw_result \<Rightarrow> error + (int \<times> int \<times> int \<times> int) option" where
  "overlayRect res =
     map_sum id
       (\<lambda>r. map_option (\<lambda>a. (sint (DstX a), sint (DstY a), sint (DstXE a), sint (DstYE a)))
              (stretchDIB r)) res"

definition paintAgain :: "blitter \<Rightarrow> bool \<Rightarrow> Window \<Rightarrow> int32_t \<Rightarrow> int32_t \<Rightarrow> error + Draw_result \<Rightarrow>
    error + Draw_result" where
  "paintAgain StretchDIB dbg wnd zoom cross res =
     bindE res (\<lambda>r. Draw StretchDIB dbg wnd (drawnFrame r) zoom cross None 0 0 0)"

section \<open>Auxiliary facts\<close>

declare Update_loop.simps [simp del] for_le.simps [simp del] for_lt.simps [simp del]

subsection \<open>Failure propagation and memory\<close>

lemma bindE_Inr_iff: "bindE m k = Inr b \<longleftrightarrow> (\<exists>a. m = Inr a \<and> k a = Inr b)"
  by (cases m) (simp_all add: bindE_def)

subsection \<open>Update\<close>

lemma unat_of_nat32: "n < 2 ^ 32 \<Longrightarrow> unat (of_nat n :: 32 word) = n"
  by (simp add: unat_of_nat)

lemma unat_stride:
  fixes l pad :: "32 word"
  assumes "y < H" "H * (unat l + unat pad) < 2 ^ 32"
  shows "unat ((l + pad) * of_nat y) = (unat l + unat pad) * y"
proof -
  have "(unat l + unat pad) * y \<le> H * (unat l + unat pad)"
    using assms(1) by (simp add: mult.commute)
  then have b: "(unat l + unat pad) * y < 2 ^ 32" using assms(2) by linarith
  have "(l + pad) * of_nat y = (of_nat ((unat l + unat pad) * y) :: 32 word)" by simp
  then show ?thesis using unat_of_nat32[OF b] by simp
qed

lemma unat_source:
  fixes l h :: "32 word"
  assumes "y < unat h" "unat h * unat l < 2 ^ 32"
  shows "unat ((h - of_nat y - 1) * l) = (unat h - 1 - y) * unat l"
proof -
  have "(unat h - 1 - y) * unat l \<le> unat h * unat l" by (simp add: mult_le_mono1)
  then have b: "(unat h - 1 - y) * unat l < 2 ^ 32" using assms(2) by linarith
  have "(of_nat (unat h - 1 - y) :: 32 word) = h - of_nat y - 1"
    using assms(1) by simp
  then have "(h - of_nat y - 1) * l = (of_nat ((unat h - 1 - y) * unat l) :: 32 word)" by simp
  then show ?thesis using unat_of_nat32[OF b] by simp
qed

lemma Update_row_closed:
  assumes m: "matches f P" and y: "y < unat (height_m f)"
    and len: "length mem = length (pixelsPtr_m f)"
  shows "Update_row (height_m f) P y mem =
     Inr (take (y * (unat (linesize0 P) + unat (GetPadding (linesize0 P)))) mem @
          (sourceRow (unat (linesize0 P)) (data0 P) (unat (height_m f) - 1 - y) @
             replicate (unat (GetPadding (linesize0 P))) 0) @
          drop (Suc y * (unat (linesize0 P) + unat (GetPadding (linesize0 P)))) mem)"
proof -
  define L where "L = unat (linesize0 P)"
  define pad where "pad = unat (GetPadding (linesize0 P))"
  define H where "H = unat (height_m f)"
  from m have nn: "0 \<le> sint (linesize0 P)" and lm: "length mem = H * (L + pad)"
    and b: "H * (L + pad) < 2 ^ 32" and d: "H * L \<le> length (data0 P)"
    using len by (simp_all add: matches_def L_def pad_def H_def)
  have yH: "y < H" using y by (simp add: H_def)
  have dst: "unat ((linesize0 P + GetPadding (linesize0 P)) * of_nat y) = (L + pad) * y"
    unfolding L_def pad_def using unat_stride[OF yH] b[unfolded L_def pad_def] by simp
  have "H * L \<le> H * (L + pad)" by simp
  then have bl: "unat (height_m f) * unat (linesize0 P) < 2 ^ 32"
    using b unfolding H_def L_def by linarith
  have src: "unat ((height_m f - of_nat y - 1) * linesize0 P) = (H - 1 - y) * L"
    unfolding H_def L_def using unat_source[OF y bl] .
  have "Suc y * (L + pad) \<le> H * (L + pad)" using yH by (simp add: Suc_leI mult_le_mono1 del: mult_Suc)
  then have in1: "(L + pad) * y + L + pad \<le> length mem" using lm by (simp add: algebra_simps)
  have "Suc (H - 1 - y) * L \<le> H * L" using yH by (intro mult_le_mono1) simp
  then have in2: "(H - 1 - y) * L + L \<le> length (data0 P)" using d by (simp add: algebra_simps)
  show ?thesis
    using nn in1 in2
    apply (simp add: Update_row_def Let_def dst src CopyMemory_def SecureZeroMemory_def bindE_def
        sourceRow_def flip: L_def pad_def H_def)
    apply (simp add: algebra_simps)
    done
qed

lemma sourceRow_length:
  "Suc y * l \<le> length src \<Longrightarrow> length (sourceRow l src y) = l"
  by (simp add: sourceRow_def)

lemma Update_row_length: "Update_row h P y mem = Inr mem' \<Longrightarrow> length mem' = length mem"
  by (auto simp: Update_row_def Let_def bindE_Inr_iff CopyMemory_def SecureZeroMemory_def
      split: if_splits)

lemma Update_loop_done: "\<not> y < unat h \<Longrightarrow> Update_loop h P y mem = Inr mem"
  by (subst Update_loop.simps) simp

lemma Update_loop_step:
  "y < unat h \<Longrightarrow> Update_row h P y mem = Inr mem' \<Longrightarrow>
     Update_loop h P y mem = Update_loop h P (Suc y) mem'"
  by (subst Update_loop.simps) simp

lemma Update_loop_closed:
  assumes m: "matches f P"
  shows "y \<le> unat (height_m f) \<Longrightarrow> length mem = length (pixelsPtr_m f) \<Longrightarrow>
     Update_loop (height_m f) P y mem =
       Inr (take (y * (unat (linesize0 P) + unat (GetPadding (linesize0 P)))) mem @
            concat (map (\<lambda>y. sourceRow (unat (linesize0 P)) (data0 P) (unat (height_m f) - 1 - y) @
                              replicate (unat (GetPadding (linesize0 P))) 0)
                      [y..<unat (height_m f)]))"
proof (induction "unat (height_m f) - y" arbitrary: y mem)
  case 0
  then have "y = unat (height_m f)" by simp
  with 0 m show ?case
    by (simp add: Update_loop_done matches_def)
next
  case (Suc n)
  define L where "L = unat (linesize0 P)"
  define pad where "pad = unat (GetPadding (linesize0 P))"
  define H where "H = unat (height_m f)"
  define row where "row = (\<lambda>y. sourceRow L (data0 P) (H - 1 - y) @ replicate pad (0 :: uint8_t))"
  from Suc.hyps(2) have y: "y < unat (height_m f)" by simp
  then have yH: "y < H" by (simp add: H_def)
  from m Suc.prems(2) have lm: "length mem = H * (L + pad)" and d: "H * L \<le> length (data0 P)"
    by (simp_all add: matches_def L_def pad_def H_def)
  let ?mem' = "take (y * (L + pad)) mem @ row y @ drop (Suc y * (L + pad)) mem"
  have r: "Update_row (height_m f) P y mem = Inr ?mem'"
    using Update_row_closed[OF m y Suc.prems(2)] by (simp add: L_def pad_def H_def row_def)
  have l': "length ?mem' = length (pixelsPtr_m f)"
    using Update_row_length[OF r] Suc.prems(2) by simp
  have n: "n = unat (height_m f) - Suc y" using Suc.hyps(2) by simp
  have ih: "Update_loop (height_m f) P (Suc y) ?mem' =
      Inr (take (Suc y * (L + pad)) ?mem' @ concat (map row [Suc y..<H]))"
    using Suc.hyps(1)[OF n _ l'] y by (simp add: L_def pad_def H_def row_def)
  have "y * (L + pad) \<le> H * (L + pad)" using yH by (simp add: mult_le_mono1)
  then have lt: "length (take (y * (L + pad)) mem) = y * (L + pad)" using lm by simp
  have "Suc (H - 1 - y) * L \<le> H * L" using yH by (intro mult_le_mono1) simp
  then have "length (sourceRow L (data0 P) (H - 1 - y)) = L"
    using d by (intro sourceRow_length) linarith
  then have lr: "length (row y) = L + pad" by (simp add: row_def)
  have tk: "take (Suc y * (L + pad)) ?mem' = take (y * (L + pad)) mem @ row y"
    using lt lr by simp
  have "Update_loop (height_m f) P y mem =
      Inr (take (y * (L + pad)) mem @ row y @ concat (map row [Suc y..<H]))"
    using Update_loop_step[OF y r] ih tk by simp
  also have "row y @ concat (map row [Suc y..<H]) = concat (map row [y..<H])"
    using yH by (simp add: upt_conv_Cons)
  finally show ?case by (simp add: L_def pad_def H_def row_def)
qed

lemma Update_closed:
  assumes m: "matches f P"
  shows "Update f P = Inr (f\<lparr>pixelsPtr_m :=
      flipped_padded (unat (height_m f)) (unat (linesize0 P)) (unat (GetPadding (linesize0 P))) (data0 P)\<rparr>)"
  using Update_loop_closed[OF m, of 0 "pixelsPtr_m f"]
  by (simp add: Update_def bindE_def flipped_padded_def)

lemma Update_loop_length: "Update_loop h P y mem = Inr mem' \<Longrightarrow> length mem' = length mem"
proof (induction h P y mem rule: Update_loop.induct)
  case (1 height avPicture y mem)
  show ?case
  proof (cases "y < unat height")
    case True
    with "1.prems" obtain m1 where r: "Update_row height avPicture y mem = Inr m1"
      and l: "Update_loop height avPicture (Suc y) m1 = Inr mem'"
      by (auto simp: Update_loop.simps[of height avPicture y mem] split: sum.splits)
    from "1.IH"[OF True r l] Update_row_length[OF r] show ?thesis by simp
  next
    case False
    with "1.prems" show ?thesis by (simp add: Update_loop_done)
  qed
qed

lemma Update_keeps:
  "Update f pic = Inr f' \<Longrightarrow>
     width_m f' = width_m f \<and> height_m f' = height_m f \<and> bmpInfo_m f' = bmpInfo_m f \<and>
     length (pixelsPtr_m f') = length (pixelsPtr_m f)"
  by (auto simp: Update_def bindE_Inr_iff dest: Update_loop_length)

lemma ToBmp_ok:
  "unat (height_m f * width_m f * 3) \<le> length (pixelsPtr_m f) \<Longrightarrow>
   ToBmp True f = Inr \<lparr>bmpHeader = rgb24Header (width_m f) (height_m f),
                        bmpPixels = take (unat (height_m f * width_m f * 3)) (pixelsPtr_m f)\<rparr>"
  by (simp add: ToBmp_def CopyMemory_def bindE_def)

subsection \<open>The loops of the crosshair\<close>

lemma for_le_done: "hi < i \<Longrightarrow> for_le i hi body s = Inr s"
  by (subst for_le.simps) simp

lemma for_le_step: "i \<le> hi \<Longrightarrow> body i s = Inr s' \<Longrightarrow> for_le i hi body s = for_le (i + 1) hi body s'"
  by (subst for_le.simps) simp

lemma for_lt_for_le: "for_lt i hi body s = for_le i (hi - 1) body s"
proof (induction i hi body s rule: for_lt.induct)
  case (1 i hi body s)
  show ?case
  proof (cases "i < hi")
    case True
    show ?thesis
    proof (cases "body i s")
      case (Inl e)
      with True show ?thesis
        by (subst for_lt.simps, subst for_le.simps) simp
    next
      case (Inr s')
      with True "1.IH"[OF True Inr] show ?thesis
        by (subst for_lt.simps, subst for_le.simps) simp
    qed
  next
    case False
    then show ?thesis by (subst for_lt.simps, subst for_le.simps) simp
  qed
qed

lemma for_le_paints:
  fixes P :: "'c set \<Rightarrow> 's"
  assumes step: "\<And>i A. lo \<le> i \<Longrightarrow> i \<le> hi \<Longrightarrow> A \<inter> B i = {} \<Longrightarrow> body i (P A) = Inr (P (A \<union> B i))"
    and disj: "\<And>i j. lo \<le> i \<Longrightarrow> i < j \<Longrightarrow> j \<le> hi \<Longrightarrow> B i \<inter> B j = {}"
  shows "l \<ge> lo \<Longrightarrow> A0 \<inter> (\<Union>i\<in>{l..hi}. B i) = {} \<Longrightarrow>
     for_le l hi body (P A0) = Inr (P (A0 \<union> (\<Union>i\<in>{l..hi}. B i)))"
proof (induction "nat (hi + 1 - l)" arbitrary: l A0)
  case 0
  then have "hi < l" by simp
  then show ?case by (simp add: for_le_done)
next
  case (Suc n)
  then have le: "l \<le> hi" by simp
  have set: "{l..hi} = insert l {l + 1..hi}" using le by auto
  have "B l \<subseteq> (\<Union>i\<in>{l..hi}. B i)" using le by auto
  then have a: "A0 \<inter> B l = {}" using Suc.prems(2) by blast
  have s: "body l (P A0) = Inr (P (A0 \<union> B l))" using step[OF Suc.prems(1) le a] .
  have d: "(A0 \<union> B l) \<inter> (\<Union>i\<in>{l + 1..hi}. B i) = {}"
  proof -
    have "B l \<inter> B j = {}" if "j \<in> {l + 1..hi}" for j
      using disj[of l j] Suc.prems(1) that by simp
    then have "B l \<inter> (\<Union>i\<in>{l + 1..hi}. B i) = {}" by blast
    moreover have "(\<Union>i\<in>{l + 1..hi}. B i) \<subseteq> (\<Union>i\<in>{l..hi}. B i)" by (subst set) blast
    then have "A0 \<inter> (\<Union>i\<in>{l + 1..hi}. B i) = {}" using Suc.prems(2) by blast
    ultimately show ?thesis by blast
  qed
  have n: "n = nat (hi + 1 - (l + 1))" using Suc.hyps(2) by simp
  have "for_le (l + 1) hi body (P (A0 \<union> B l)) =
      Inr (P ((A0 \<union> B l) \<union> (\<Union>i\<in>{l + 1..hi}. B i)))"
    using Suc.hyps(1)[OF n _ d] Suc.prems(1) by simp
  moreover have "(A0 \<union> B l) \<union> (\<Union>i\<in>{l + 1..hi}. B i) = A0 \<union> (\<Union>i\<in>{l..hi}. B i)"
    unfolding set by auto
  ultimately show ?case
    using for_le_step[of l hi body "P A0" "P (A0 \<union> B l)"] le s by simp
qed
lemma painted_length: "length (painted W H A mem) = length mem"
  by (simp add: painted_def)

lemma painted_empty: "painted W H {} mem = mem"
  by (simp add: painted_def map_nth)

lemma brightenUp_closed:
  "ptr + 3 \<le> length mem \<Longrightarrow>
   brightenUp mem ptr v =
     Inr (mem[ptr := brighten (mem ! ptr) v, ptr + 1 := brighten (mem ! (ptr + 1)) v,
              ptr + 2 := brighten (mem ! (ptr + 2)) v])"
  by (simp add: brightenUp_def brightenByte_def bindE_def)

lemma stamp_painted:
  assumes len: "length mem = 3 * W * H"
    and new: "(x, y) \<notin> A"
    and xin: "0 \<le> int (W div 2) + x" "int (W div 2) + x < int W"
    and yin: "0 \<le> int (H div 2) + y" "int (H div 2) + y < int H"
  shows "brightenUp (painted W H A mem)
           (3 * (W * nat (int (H div 2) + y) + nat (int (W div 2) + x))) 0x6F =
         Inr (painted W H (insert (x, y) A) mem)"
proof -
  define X where "X = nat (int (W div 2) + x)"
  define Y where "Y = nat (int (H div 2) + y)"
  define p where "p = W * Y + X"
  have X: "X < W" and Y: "Y < H" using xin yin by (simp_all add: X_def Y_def)
  have xy: "x = int X - int (W div 2)" "y = int Y - int (H div 2)"
    using xin yin by (simp_all add: X_def Y_def)
  have "W * Y + X < W * Suc Y" using X by simp
  also have "\<dots> \<le> W * H" using Y by (intro mult_le_mono2) simp
  finally have p: "p < W * H" by (simp add: p_def)
  have pd: "p div W = Y" and pm: "p mod W = X" using X by (simp_all add: p_def)
  have inb: "3 * p + 3 \<le> length (painted W H A mem)" using p len by (simp add: painted_length)
  have "brightenUp (painted W H A mem) (3 * p) 0x6F =
      Inr ((painted W H A mem)[3 * p := brighten (painted W H A mem ! (3 * p)) 0x6F,
         3 * p + 1 := brighten (painted W H A mem ! (3 * p + 1)) 0x6F,
         3 * p + 2 := brighten (painted W H A mem ! (3 * p + 2)) 0x6F])"
    by (rule brightenUp_closed[OF inb])
  also have "(painted W H A mem)[3 * p := brighten (painted W H A mem ! (3 * p)) 0x6F,
         3 * p + 1 := brighten (painted W H A mem ! (3 * p + 1)) 0x6F,
         3 * p + 2 := brighten (painted W H A mem ! (3 * p + 2)) 0x6F] =
       painted W H (insert (x, y) A) mem" (is "?l = ?r")
  proof (rule nth_equalityI)
    show "length ?l = length ?r" by (simp add: painted_length)
  next
    fix i assume "i < length ?l"
    then have i: "i < length mem" by (simp add: painted_length)
    show "?l ! i = ?r ! i"
    proof (cases "i div 3 = p")
      case True
      then have c: "i = 3 * p \<or> i = 3 * p + 1 \<or> i = 3 * p + 2" by presburger
      have old: "painted W H A mem ! i = mem ! i"
        using i new True by (simp add: painted_def pd pm xy)
      have "?l ! i = brighten (painted W H A mem ! i) 0x6F"
        using c i by (auto simp: painted_length nth_list_update)
      moreover have "?r ! i = brighten (mem ! i) 0x6F"
        using i True by (simp add: painted_def pd pm xy)
      ultimately show ?thesis using old by simp
    next
      case False
      then have ne: "i \<noteq> 3 * p" "i \<noteq> 3 * p + 1" "i \<noteq> 3 * p + 2" by presburger+
      have "(int ((i div 3) mod W) - int (W div 2), int ((i div 3) div W) - int (H div 2)) \<noteq> (x, y)"
      proof
        assume "(int ((i div 3) mod W) - int (W div 2), int ((i div 3) div W) - int (H div 2)) = (x, y)"
        then have "(i div 3) mod W = X" "(i div 3) div W = Y" by (simp_all add: xy)
        then have "i div 3 = W * Y + X" by (metis mult_div_mod_eq)
        with False show False by (simp add: p_def)
      qed
      then have "?r ! i = painted W H A mem ! i"
        using i by (auto simp: painted_def)
      moreover have "?l ! i = painted W H A mem ! i" using ne by simp
      ultimately show ?thesis by simp
    qed
  qed
  finally show ?thesis by (simp add: p_def X_def Y_def)
qed
lemma word_half: "(w :: 32 word) div 2 = of_nat (unat w div 2)"
proof -
  have "unat (w div 2) = unat w div 2" by (simp add: unat_div)
  then show ?thesis by (metis of_nat_unat ucast_id)
qed

lemma crossOffset_in_frame:
  assumes W: "unat w = W" and H: "unat h = H"
    and xin: "0 \<le> int (W div 2) + x" "int (W div 2) + x < int W"
    and yin: "0 \<le> int (H div 2) + y" "int (H div 2) + y < int H"
    and fit: "3 * W * H < 2 ^ 32"
  shows "crossOffset w h x y = 3 * (W * nat (int (H div 2) + y) + nat (int (W div 2) + x))"
proof -
  define X where "X = nat (int (W div 2) + x)"
  define Y where "Y = nat (int (H div 2) + y)"
  have X: "X < W" and Y: "Y < H" using xin yin by (simp_all add: X_def Y_def)
  have x: "x = int X - int (W div 2)" and y: "y = int Y - int (H div 2)"
    using xin yin by (simp_all add: X_def Y_def)
  have "W * Y + X < W * Suc Y" using X by simp
  also have "\<dots> \<le> W * H" using Y by (intro mult_le_mono2) simp
  finally have "3 * (W * Y + X) < 3 * W * H" by simp
  then have b: "3 * (W * Y + X) < 2 ^ 32" using fit by linarith
  have wW: "w = of_nat W" and hH: "h = of_nat H" using W H by (metis of_nat_unat ucast_id)+
  have "(w * (h div 2 + word_of_int y) + w div 2 + word_of_int x) * 3 =
      (of_nat (3 * (W * Y + X)) :: 32 word)"
    unfolding word_half W H unfolding wW x y by (simp add: algebra_simps)
  then show ?thesis
    using unat_of_nat32[OF b] by (simp add: crossOffset_def X_def Y_def)
qed
lemma sdiv_nonneg: "0 \<le> a \<Longrightarrow> 0 < b \<Longrightarrow> a sdiv b = a div (b :: int)"
  by (simp add: signed_divide_int_def sgn_if)

lemma stamp_step:
  assumes W: "unat w = W" and H: "unat h = H"
    and len: "length mem = 3 * W * H" and fit: "3 * W * H < 2 ^ 32"
    and xin: "0 \<le> int (W div 2) + x" "int (W div 2) + x < int W"
    and yin: "0 \<le> int (H div 2) + y" "int (H div 2) + y < int H"
    and new: "A \<inter> {(x, y)} = {}"
  shows "brightenUp (painted W H A mem) (crossOffset w h x y) 0x6F =
         Inr (painted W H (A \<union> {(x, y)}) mem)"
proof -
  from new have "(x, y) \<notin> A" by simp
  from stamp_painted[OF len this xin yin] crossOffset_in_frame[OF W H xin yin fit]
  show ?thesis by simp
qed

lemma column_painted:
  assumes W: "unat w = W" and H: "unat h = H"
    and len: "length mem = 3 * W * H" and fit: "3 * W * H < 2 ^ 32"
    and xin: "0 \<le> int (W div 2) + x" "int (W div 2) + x < int W"
    and yin: "0 \<le> int (H div 2) + lo" "int (H div 2) + hi < int H"
    and new: "A \<inter> (\<Union>y\<in>{lo..hi}. {(x, y)}) = {}"
  shows "for_le lo hi (\<lambda>y m. brightenUp m (crossOffset w h x y) 0x6F) (painted W H A mem) =
         Inr (painted W H (A \<union> (\<Union>y\<in>{lo..hi}. {(x, y)})) mem)"
proof (rule for_le_paints[where lo = lo and P = "\<lambda>A. painted W H A mem" and B = "\<lambda>y. {(x, y)}"])
  fix i A assume "lo \<le> i" "i \<le> hi" "A \<inter> {(x, i)} = {}"
  then show "brightenUp (painted W H A mem) (crossOffset w h x i) 0x6F = Inr (painted W H (A \<union> {(x, i)}) mem)"
    using yin by (intro stamp_step[OF W H len fit xin]) simp_all
next
  fix i j :: int assume "i < j"
  then show "{(x, i)} \<inter> {(x, j)} = {}" by simp
next
  show "lo \<le> lo" by simp
  show "A \<inter> (\<Union>y\<in>{lo..hi}. {(x, y)}) = {}" by (rule new)
qed

lemma row_painted:
  assumes W: "unat w = W" and H: "unat h = H"
    and len: "length mem = 3 * W * H" and fit: "3 * W * H < 2 ^ 32"
    and xin: "0 \<le> int (W div 2) + lo" "int (W div 2) + hi < int W"
    and yin: "0 \<le> int (H div 2) + y" "int (H div 2) + y < int H"
    and new: "A \<inter> (\<Union>x\<in>{lo..hi}. {(x, y)}) = {}"
  shows "for_le lo hi (\<lambda>x m. brightenUp m (crossOffset w h x y) 0x6F) (painted W H A mem) =
         Inr (painted W H (A \<union> (\<Union>x\<in>{lo..hi}. {(x, y)})) mem)"
proof (rule for_le_paints[where lo = lo and P = "\<lambda>A. painted W H A mem" and B = "\<lambda>x. {(x, y)}"])
  fix i A assume "lo \<le> i" "i \<le> hi" "A \<inter> {(i, y)} = {}"
  then show "brightenUp (painted W H A mem) (crossOffset w h i y) 0x6F = Inr (painted W H (A \<union> {(i, y)}) mem)"
    using xin by (intro stamp_step[OF W H len fit _ _ yin]) simp_all
next
  fix i j :: int assume "i < j"
  then show "{(i, y)} \<inter> {(j, y)} = {}" by simp
next
  show "lo \<le> lo" by simp
  show "A \<inter> (\<Union>x\<in>{lo..hi}. {(x, y)}) = {}" by (rule new)
qed


lemma columns_painted:
  assumes W: "unat w = W" and H: "unat h = H"
    and len: "length mem = 3 * W * H" and fit: "3 * W * H < 2 ^ 32"
    and xin: "0 \<le> int (W div 2) + xlo" "int (W div 2) + xhi < int W"
    and yin: "0 \<le> int (H div 2) + ylo" "int (H div 2) + yhi < int H"
    and new: "A \<inter> (\<Union>x\<in>{xlo..xhi}. \<Union>y\<in>{ylo..yhi}. {(x, y)}) = {}"
  shows "for_le xlo xhi (\<lambda>x. for_le ylo yhi (\<lambda>y m. brightenUp m (crossOffset w h x y) 0x6F))
           (painted W H A mem) =
         Inr (painted W H (A \<union> (\<Union>x\<in>{xlo..xhi}. \<Union>y\<in>{ylo..yhi}. {(x, y)})) mem)"
proof (rule for_le_paints[where lo = xlo and P = "\<lambda>A. painted W H A mem"
      and B = "\<lambda>x. \<Union>y\<in>{ylo..yhi}. {(x, y)}"])
  fix i A assume "xlo \<le> i" "i \<le> xhi" "A \<inter> (\<Union>y\<in>{ylo..yhi}. {(i, y)}) = {}"
  then show "for_le ylo yhi (\<lambda>y m. brightenUp m (crossOffset w h i y) 0x6F) (painted W H A mem) =
      Inr (painted W H (A \<union> (\<Union>y\<in>{ylo..yhi}. {(i, y)})) mem)"
    using xin by (intro column_painted[OF W H len fit _ _ yin]) simp_all
next
  fix i j :: int assume "i < j"
  then show "(\<Union>y\<in>{ylo..yhi}. {(i, y)}) \<inter> (\<Union>y\<in>{ylo..yhi}. {(j, y)}) = {}" by auto
next
  show "xlo \<le> xlo" by simp
  show "A \<inter> (\<Union>x\<in>{xlo..xhi}. \<Union>y\<in>{ylo..yhi}. {(x, y)}) = {}" by (rule new)
qed

lemma rows_painted:
  assumes W: "unat w = W" and H: "unat h = H"
    and len: "length mem = 3 * W * H" and fit: "3 * W * H < 2 ^ 32"
    and xin: "0 \<le> int (W div 2) + xlo" "int (W div 2) + xhi < int W"
    and yin: "0 \<le> int (H div 2) + ylo" "int (H div 2) + yhi < int H"
    and new: "A \<inter> (\<Union>y\<in>{ylo..yhi}. \<Union>x\<in>{xlo..xhi}. {(x, y)}) = {}"
  shows "for_le ylo yhi (\<lambda>y. for_le xlo xhi (\<lambda>x m. brightenUp m (crossOffset w h x y) 0x6F))
           (painted W H A mem) =
         Inr (painted W H (A \<union> (\<Union>y\<in>{ylo..yhi}. \<Union>x\<in>{xlo..xhi}. {(x, y)})) mem)"
proof (rule for_le_paints[where lo = ylo and P = "\<lambda>A. painted W H A mem"
      and B = "\<lambda>y. \<Union>x\<in>{xlo..xhi}. {(x, y)}"])
  fix i A assume "ylo \<le> i" "i \<le> yhi" "A \<inter> (\<Union>x\<in>{xlo..xhi}. {(x, i)}) = {}"
  then show "for_le xlo xhi (\<lambda>x m. brightenUp m (crossOffset w h x i) 0x6F) (painted W H A mem) =
      Inr (painted W H (A \<union> (\<Union>x\<in>{xlo..xhi}. {(x, i)})) mem)"
    using yin by (intro row_painted[OF W H len fit xin]) simp_all
next
  fix i j :: int assume "i < j"
  then show "(\<Union>x\<in>{xlo..xhi}. {(x, i)}) \<inter> (\<Union>x\<in>{xlo..xhi}. {(x, j)}) = {}" by auto
next
  show "ylo \<le> ylo" by simp
  show "A \<inter> (\<Union>y\<in>{ylo..yhi}. \<Union>x\<in>{xlo..xhi}. {(x, y)}) = {}" by (rule new)
qed

lemma drawCross_painted:
  assumes W: "unat w = W" and H: "unat h = H"
    and len: "length mem = 3 * W * H" and fit: "3 * W * H < 2 ^ 32"
    and cross: "0 < sint cross" and zoom: "1 \<le> sint zoom"
    and c: "c = sint cross div sint zoom" and cw: "cw = max 1 (c div 8)"
    and xin: "max c cw \<le> int (W div 2)" "int (W div 2) + max c cw < int W"
    and yin: "max c cw \<le> int (H div 2)" "int (H div 2) + max c cw < int H"
  shows "drawCross w h zoom cross mem = Inr (painted W H {(dx, dy). onCross c cw dx dy} mem)"
proof -
  have z0: "zoom \<noteq> 0" using zoom by auto
  have c0: "0 \<le> c" using cross zoom by (simp add: c pos_imp_zdiv_nonneg_iff)
  have c': "sint cross sdiv sint zoom = c" using cross zoom by (simp add: c sdiv_nonneg)
  have cw': "(if c sdiv 8 < 1 then 1 else c sdiv 8) = cw" using c0 by (simp add: cw sdiv_nonneg max_def)
  let ?D1 = "\<Union>x\<in>{- c..c}. \<Union>y\<in>{- cw..cw}. {(x, y)}"
  let ?D2 = "\<Union>y\<in>{- c..- cw - 1}. \<Union>x\<in>{- cw..cw}. {(x, y)}"
  let ?D3 = "\<Union>y\<in>{cw + 1..c}. \<Union>x\<in>{- cw..cw}. {(x, y)}"
  let ?stamp = "\<lambda>x y m. brightenUp m (crossOffset w h x y) 0x6F"
  have cw1: "1 \<le> cw" by (simp add: cw)
  have bx: "c \<le> int (W div 2)" "cw \<le> int (W div 2)"
    "int (W div 2) + c < int W" "int (W div 2) + cw < int W"
    using xin by simp_all
  have bY: "c \<le> int (H div 2)" "cw \<le> int (H div 2)"
    "int (H div 2) + c < int H" "int (H div 2) + cw < int H"
    using yin by simp_all
  have l1: "for_le (- c) c (\<lambda>x. for_le (- cw) cw (\<lambda>y. ?stamp x y)) (painted W H {} mem) =
      Inr (painted W H ({} \<union> ?D1) mem)"
    using bx bY c0 cw1 by (intro columns_painted[OF W H len fit]) simp_all
  have l2: "for_le (- c) (- cw - 1) (\<lambda>y. for_le (- cw) cw (\<lambda>x. ?stamp x y)) (painted W H ?D1 mem) =
      Inr (painted W H (?D1 \<union> ?D2) mem)"
    using bx bY c0 cw1 by (intro rows_painted[OF W H len fit]) auto
  have l3: "for_le (cw + 1) c (\<lambda>y. for_le (- cw) cw (\<lambda>x. ?stamp x y)) (painted W H (?D1 \<union> ?D2) mem) =
      Inr (painted W H ((?D1 \<union> ?D2) \<union> ?D3) mem)"
    using bx bY c0 cw1 by (intro rows_painted[OF W H len fit]) auto
  have D: "(?D1 \<union> ?D2) \<union> ?D3 = {(dx, dy). onCross c cw dx dy}"
    by (auto simp: onCross_def)
  show ?thesis
    using cross z0 l1 l2 l3
    by (simp add: drawCross_def Let_def c' cw' bindE_def for_lt_for_le painted_empty D)
qed

subsection \<open>Draw\<close>

lemma Draw_unfold:
  assumes "rcRight (clientRect wnd) \<noteq> rcLeft (clientRect wnd)"
    and "dbg \<longrightarrow> hdc wnd \<noteq> None"
    and "pipBlit S f pip pw pt pl = Inr (st, mem1)"
    and "drawCross (width_m f) (height_m f) zoom cross mem1 = Inr mem2"
  shows "Draw S dbg wnd f zoom cross pip pw pt pl =
     Inr \<lparr>drawnFrame = f\<lparr>pixelsPtr_m := mem2\<rparr>, stretchDIB = st,
          drawDibDraw = Some
            \<lparr>xDst = rcLeft (clientRect wnd), yDst = rcTop (clientRect wnd),
             dxDst = rcRight (clientRect wnd) - rcLeft (clientRect wnd),
             dyDst = rcBottom (clientRect wnd) - rcTop (clientRect wnd),
             lpbi = bmpInfo_m f, lpBits = mem2,
             xSrc = fst (srcRect f zoom), ySrc = fst (snd (srcRect f zoom)),
             dxSrc = fst (snd (snd (srcRect f zoom))),
             dySrc = snd (snd (snd (srcRect f zoom)))\<rparr>\<rparr>"
  using assms by (auto simp: Draw_def Let_def bindE_def split: prod.splits)

lemma Draw_Inr_calls:
  assumes D: "Draw S dbg wnd f zoom cross pip pw pt pl = Inr r"
    and nz: "rcRight (clientRect wnd) \<noteq> rcLeft (clientRect wnd)"
  shows "\<exists>d mem1. drawDibDraw r = Some d \<and> (xSrc d, ySrc d, dxSrc d, dySrc d) = srcRect f zoom \<and>
           pipBlit S f pip pw pt pl = Inr (stretchDIB r, mem1) \<and>
           drawCross (width_m f) (height_m f) zoom cross mem1 = Inr (pixelsPtr_m (drawnFrame r)) \<and>
           lpBits d = pixelsPtr_m (drawnFrame r) \<and>
           drawnFrame r = f\<lparr>pixelsPtr_m := pixelsPtr_m (drawnFrame r)\<rparr>"
proof -
  have h: "dbg \<longrightarrow> hdc wnd \<noteq> None"
    using D nz by (auto simp: Draw_def Let_def split: if_splits)
  obtain st mem1 where pb: "pipBlit S f pip pw pt pl = Inr (st, mem1)"
    using D nz h by (cases "pipBlit S f pip pw pt pl") (auto simp: Draw_def Let_def bindE_def)
  obtain mem2 where dc: "drawCross (width_m f) (height_m f) zoom cross mem1 = Inr mem2"
    using D nz h pb
    by (cases "drawCross (width_m f) (height_m f) zoom cross mem1")
      (auto simp: Draw_def Let_def bindE_def split: prod.splits)
  from Draw_unfold[OF nz h pb dc] D pb dc show ?thesis by auto
qed

lemma unat_centered:
  fixes w z :: "32 word"
  shows "unat ((w - w div z) div 2) = (unat w - unat w div unat z) div 2"
proof -
  have "unat (w div z) \<le> unat w" by (simp add: unat_div)
  then have "w div z \<le> w" by (simp add: word_le_nat_alt)
  then show ?thesis by (simp add: unat_div unat_sub)
qed

lemma srcRect_zoomed:
  assumes "(xs, ys, dxs, dys) = srcRect f zoom" and "1 < sint zoom"
  shows "dxs = width_m f div zoom" "dys = height_m f div zoom"
    "xs = (width_m f - width_m f div zoom) div 2"
    "ys = (height_m f - height_m f div zoom) div 2"
    "unat dxs = unat (width_m f) div unat zoom"
    "unat dys = unat (height_m f) div unat zoom"
    "unat xs = (unat (width_m f) - unat (width_m f) div unat zoom) div 2"
    "unat ys = (unat (height_m f) - unat (height_m f) div unat zoom) div 2"
proof -
  from assms show e: "dxs = width_m f div zoom" "dys = height_m f div zoom"
    "xs = (width_m f - width_m f div zoom) div 2"
    "ys = (height_m f - height_m f div zoom) div 2"
    by (simp_all add: srcRect_def Let_def)
  show "unat dxs = unat (width_m f) div unat zoom"
    "unat dys = unat (height_m f) div unat zoom"
    unfolding e by (rule unat_div)+
  show "unat xs = (unat (width_m f) - unat (width_m f) div unat zoom) div 2"
    "unat ys = (unat (height_m f) - unat (height_m f) div unat zoom) div 2"
    unfolding e by (rule unat_centered)+
qed

lemma srcRect_unzoomed:
  assumes "(xs, ys, dxs, dys) = srcRect f zoom" and "sint zoom \<le> 1"
  shows "xs = 0" "ys = 0" "dxs = width_m f" "dys = height_m f"
  using assms by (simp_all add: srcRect_def)

lemma Draw_8x8_zoom2:
  "Draw noBlit True window100x50 (blackFrame 8 8) 2 0 None 0 0 0 =
   Inr \<lparr>drawnFrame = blackFrame 8 8, stretchDIB = None,
        drawDibDraw = Some \<lparr>xDst = 0, yDst = 0, dxDst = 100, dyDst = 50,
           lpbi = rgb24Header 8 8, lpBits = pixelsPtr_m (blackFrame 8 8),
           xSrc = 2, ySrc = 2, dxSrc = 4, dySrc = 4\<rparr>\<rparr>"
  by (simp add: Draw_def window100x50_def pipBlit_def srcRect_def drawCross_def bindE_def blackFrame_def)

lemma pipBlit_Some:
  assumes "pipBlit S f (Some p) pw pt pl = Inr (st, mem1)"
  shows "\<exists>a. st = Some a \<and>
           DstXE a = (if sint pw \<le> 0 then width_m p else pw) \<and>
           DstYE a = (if sint pw \<le> 0 then height_m p else pw * height_m p div width_m p) \<and>
           DstX a = (if sint pl < 0 then (width_m f - DstXE a) div 2 else pl) \<and>
           DstY a = height_m p - (if sint pt < 0 then (height_m f - DstYE a) div 2 else pt) - DstYE a \<and>
           SrcX a = 0 \<and> SrcY a = 0 \<and> SrcXE a = width_m p \<and> SrcYE a = height_m p \<and>
           mem1 = apply_writes (S a (pixelsPtr_m f) (pixelsPtr_m p)) (pixelsPtr_m f)"
  using assms by (auto simp: pipBlit_def Let_def split: if_splits)

lemma apply_writes_noBlit: "apply_writes (noBlit args dst src) mem = mem"
  by (simp add: apply_writes_def noBlit_def map_nth)

lemma apply_writes_length: "length (apply_writes w mem) = length mem"
  by (simp add: apply_writes_def)

lemma Draw_overlay_native:
  "Draw noBlit True window100x50 (blackFrame 8 8) 1 0 (Some (blackFrame 4 2)) 0 0 1 =
   Inr \<lparr>drawnFrame = blackFrame 8 8,
        stretchDIB = Some \<lparr>biDst = rgb24Header 8 8, DstX = 1, DstY = 0, DstXE = 4, DstYE = 2,
                           biSrc = rgb24Header 4 2, SrcX = 0, SrcY = 0, SrcXE = 4, SrcYE = 2\<rparr>,
        drawDibDraw = Some \<lparr>xDst = 0, yDst = 0, dxDst = 100, dyDst = 50,
           lpbi = rgb24Header 8 8, lpBits = pixelsPtr_m (blackFrame 8 8),
           xSrc = 0, ySrc = 0, dxSrc = 8, dySrc = 8\<rparr>\<rparr>"
  by (simp add: Draw_def window100x50_def pipBlit_def srcRect_def drawCross_def bindE_def
      blackFrame_def apply_writes_noBlit GetPadding_def signed_modulo_int_def)

lemma pipBlit_None: "pipBlit S f None pw pt pl = Inr (None, pixelsPtr_m f)"
  by (simp add: pipBlit_def)

lemma Draw_no_overlay: "Draw S dbg wnd f zoom cross None pw pt pl = Draw S dbg wnd f zoom cross None 0 0 0"
  unfolding Draw_def pipBlit_None ..

subsection \<open>The overlay's decode loop\<close>

lemma PlayPiP_loop_posted: "posted (PlayPiP_loop steps ff p ms) = ms"
proof (induction steps arbitrary: ff p ms)
  case Nil
  show ?case by simp
next
  case (Cons a steps)
  obtain stop nf where a: "a = (stop, nf)" by (cases a)
  show ?case
  proof (cases nf)
    case Throws
    with a show ?thesis by simp
  next
    case (Leaves fr)
    with a Cons.IH show ?thesis by (simp add: Let_def)
  qed
qed

lemma PlayPiP_loop_returned:
  "\<not> stopRequestedPiP_m p \<Longrightarrow>
     returned (PlayPiP_loop steps ff p ms) = (\<not> list_all success steps)"
proof (induction steps arbitrary: ff p ms)
  case Nil
  show ?case by simp
next
  case (Cons a steps)
  obtain stop nf where a: "a = (stop, nf)" by (cases a)
  show ?case
  proof (cases nf)
    case Throws
    with a show ?thesis by simp
  next
    case (Leaves fr)
    show ?thesis
    proof (cases "success a")
      case True
      with a Leaves obtain fr' where s: "fr = Some fr'" "\<not> stop" by (cases fr) auto
      with a Leaves True Cons.prems show ?thesis
        by (simp add: Let_def Cons.IH)
    next
      case False
      with a Leaves Cons.prems show ?thesis by (cases fr) (auto simp: Let_def)
    qed
  qed
qed

lemma PlayPiP_loop_flag:
  "\<not> stopRequestedPiP_m p \<Longrightarrow>
     we_have_pip_m (player (PlayPiP_loop steps ff p ms)) =
       (list_all success steps \<and> (if steps = [] then we_have_pip_m p else ff \<or> we_have_pip_m p))"
proof (induction steps arbitrary: ff p ms)
  case Nil
  show ?case by simp
next
  case (Cons a steps)
  obtain stop nf where a: "a = (stop, nf)" by (cases a)
  show ?case
  proof (cases nf)
    case Throws
    with a show ?thesis by simp
  next
    case (Leaves fr)
    show ?thesis
    proof (cases "success a")
      case True
      with a Leaves obtain fr' where s: "fr = Some fr'" "\<not> stop" by (cases fr) auto
      define p' where "p' = (if ff then p\<lparr>stopRequestedPiP_m := False, framePiPPtr_m := fr, we_have_pip_m := True\<rparr>
                             else p\<lparr>stopRequestedPiP_m := False, framePiPPtr_m := fr\<rparr>)"
      have np: "\<not> stopRequestedPiP_m p'" by (simp add: p'_def)
      have step: "PlayPiP_loop (a # steps) ff p ms = PlayPiP_loop steps False p' ms"
        using a Leaves s Cons.prems by (simp add: Let_def p'_def)
      have fl: "we_have_pip_m p' = (ff \<or> we_have_pip_m p)" by (simp add: p'_def)
      show ?thesis
        unfolding step Cons.IH[OF np] fl using True by auto
    next
      case False
      with a Leaves Cons.prems show ?thesis by (cases fr) (auto simp: Let_def)
    qed
  qed
qed

subsection \<open>Stored rows\<close>

lemma concat_rows_length:
  "(\<And>i. i < h \<Longrightarrow> length (g i) = S) \<Longrightarrow> length (concat (map g [0..<h])) = h * S"
  by (induction h) simp_all

lemma concat_rows_drop:
  "(\<And>i. i < h \<Longrightarrow> length (g i) = S) \<Longrightarrow> y < h \<Longrightarrow>
     drop (y * S) (concat (map g [0..<h])) = g y @ drop (Suc y * S) (concat (map g [0..<h]))"
proof (induction h)
  case 0
  then show ?case by simp
next
  case (Suc h)
  let ?A = "concat (map g [0..<h])"
  have lA: "length ?A = h * S" using Suc.prems(1) by (intro concat_rows_length) simp
  have lg: "length (g h) = S" using Suc.prems(1) by simp
  show ?case
  proof (cases "y < h")
    case True
    then have "Suc y * S \<le> h * S" by (intro mult_le_mono1) simp
    moreover have "y * S \<le> h * S" using True by (intro mult_le_mono1) simp
    moreover have "drop (y * S) ?A = g y @ drop (Suc y * S) ?A"
      using Suc.IH[OF _ True] Suc.prems(1) by simp
    ultimately show ?thesis using lA by simp
  next
    case False
    with Suc.prems(2) have "y = h" by simp
    then show ?thesis using lA lg by simp
  qed
qed

lemma flipped_padded_row:
  assumes "h * l \<le> length src" and "y < h"
  shows "take l (drop (y * (l + pad)) (flipped_padded h l pad src)) = sourceRow l src (h - 1 - y)"
    and "take pad (drop (y * (l + pad) + l) (flipped_padded h l pad src)) = replicate pad 0"
proof -
  let ?g = "\<lambda>y. sourceRow l src (h - 1 - y) @ replicate pad (0 :: uint8_t)"
  have ls: "length (sourceRow l src (h - 1 - i)) = l" if "i < h" for i
  proof -
    have "Suc (h - 1 - i) * l \<le> h * l" using that by (intro mult_le_mono1) simp
    then show ?thesis using assms(1) by (intro sourceRow_length) linarith
  qed
  then have lg: "\<And>i. i < h \<Longrightarrow> length (?g i) = l + pad" by simp
  have d: "drop (y * (l + pad)) (flipped_padded h l pad src) =
      ?g y @ drop (Suc y * (l + pad)) (flipped_padded h l pad src)"
    unfolding flipped_padded_def by (rule concat_rows_drop[OF lg assms(2)])
  show "take l (drop (y * (l + pad)) (flipped_padded h l pad src)) = sourceRow l src (h - 1 - y)"
    unfolding d using ls[OF assms(2)] by simp
  have "drop (y * (l + pad) + l) (flipped_padded h l pad src) =
      drop l (drop (y * (l + pad)) (flipped_padded h l pad src))"
    by (simp add: add.commute)
  then show "take pad (drop (y * (l + pad) + l) (flipped_padded h l pad src)) = replicate pad 0"
    unfolding d using ls[OF assms(2)] by simp
qed

lemma GetPadding_6: "GetPadding 6 = 2"
  by (simp add: GetPadding_def signed_modulo_int_def)

lemma matches_2x2:
  "length px = 16 \<Longrightarrow> matches (frame2x2 px) picture2x2 \<and> matches (frame2x2 px) picture2x2'"
  by (simp add: matches_def frame2x2_def picture2x2_def picture2x2'_def GetPadding_6)

lemma flipped_padded_2x2:
  "flipped_padded 2 6 2 (data0 picture2x2') =
     [27, 28, 29, 30, 31, 32, 0, 0, 21, 22, 23, 24, 25, 26, 0, 0]"
  by code_simp

lemma Update_2x2:
  "Update (frame2x2 [7, 8, 9, 10, 11, 12, 0, 0, 1, 2, 3, 4, 5, 6, 0, 0]) picture2x2' =
     Inr (frame2x2 [27, 28, 29, 30, 31, 32, 0, 0, 21, 22, 23, 24, 25, 26, 0, 0])"
  by code_simp

subsection \<open>Draw, continued\<close>

lemma drawCross_off: "sint cross \<le> 0 \<Longrightarrow> drawCross w h zoom cross mem = Inr mem"
  by (simp add: drawCross_def)

lemma Draw_frame_shape:
  assumes "Draw S dbg wnd f zoom cross pip pw pt pl = Inr r"
  shows "width_m (drawnFrame r) = width_m f \<and> height_m (drawnFrame r) = height_m f \<and>
         bmpInfo_m (drawnFrame r) = bmpInfo_m f"
proof (cases "rcRight (clientRect wnd) = rcLeft (clientRect wnd)")
  case True
  with assms show ?thesis by (auto simp: Draw_def)
next
  case False
  from Draw_Inr_calls[OF assms False] obtain m where "drawnFrame r = f\<lparr>pixelsPtr_m := m\<rparr>"
    by blast
  then show ?thesis by simp
qed

lemma brighten_saturates: "unat (brighten b v) = min 255 (unat b + unat v)"
proof (cases "uint b < 0xFF - uint v")
  case True
  then have "int (unat b + unat v) < 255" by simp
  then have lt: "unat b + unat v < 255" by linarith
  then have "unat (b + v) = unat b + unat v"
    by (intro unat_add_lem[THEN iffD1]) simp
  then show ?thesis using True lt by (simp add: brighten_def)
next
  case False
  then have "255 \<le> int (unat b + unat v)" by simp
  then have "255 \<le> unat b + unat v" by linarith
  then show ?thesis using False by (simp add: brighten_def)
qed

lemma pipBlit_length:
  "pipBlit S f pip pw pt pl = Inr (st, mem1) \<Longrightarrow> length mem1 = length (pixelsPtr_m f)"
proof (cases pip)
  case None
  assume "pipBlit S f pip pw pt pl = Inr (st, mem1)"
  with None show ?thesis by (simp add: pipBlit_None)
next
  case (Some p)
  assume "pipBlit S f pip pw pt pl = Inr (st, mem1)"
  with Some pipBlit_Some[of S f p pw pt pl st mem1] show ?thesis
    by (auto simp: apply_writes_length)
qed

lemma painted_nth:
  assumes "x < W" and "k < 3" and "3 * (W * y + x) + k < length mem"
  shows "painted W H A mem ! (3 * (W * y + x) + k) =
     (if (int x - int (W div 2), int y - int (H div 2)) \<in> A
      then brighten (mem ! (3 * (W * y + x) + k)) 0x6F else mem ! (3 * (W * y + x) + k))"
proof -
  have "(3 * (W * y + x) + k) div 3 = W * y + x" using assms(2) by simp
  moreover have "(W * y + x) mod W = x" "(W * y + x) div W = y" using assms(1) by simp_all
  ultimately show ?thesis using assms(3) by (simp add: painted_def)
qed

lemma blackFrame_8x8: "pixelsPtr_m (blackFrame 8 8) = replicate 192 0"
  "width_m (blackFrame 8 8) = 8" "height_m (blackFrame 8 8) = 8"
  by (simp_all add: blackFrame_def GetPadding_def signed_modulo_int_def)

text \<open>The primary session's loop, for contrast, posts its notifications.\<close>

lemma Play_posts:
  "posted (Play False OpenThrows p) = [WM_STREAMFAILED]"
  "posted (Play False (Opened [(False, Leaves (Some fr))]) p) = [WM_INVALIDATE, WM_STREAMSTARTED]"
  "posted (Play False (Opened [(False, Leaves (Some fr)), (True, Leaves (Some fr))]) p) =
     [WM_INVALIDATE, WM_STREAMSTARTED, WM_STREAMSTOPPED]"
  by (simp_all add: Play_def Let_def)

section \<open>The claims\<close>

text \<open>
  C1. For every picture that matches the buffer, \<open>Update\<close> succeeds and leaves in the
  buffer the picture's rows in reversed vertical order, each followed by its zeroed
  padding: stored row \<open>y\<close> holds source row \<open>height - 1 - y\<close> and the padding bytes
  behind it are zero. Consequently, for two pictures that match the buffer, \<open>Update\<close>
  with the first and then with the second leaves exactly the second's flipped, padded
  pixels: the same frame as \<open>Update\<close> with the second alone.
\<close>

theorem Update_flips_pads_overwrites:
  assumes m1: "matches f P1" and m2: "matches f P2"
  shows "\<exists>f1. Update f P1 = Inr f1 \<and>
           pixelsPtr_m f1 =
             flipped_padded (unat (height_m f)) (unat (linesize0 P1))
               (unat (GetPadding (linesize0 P1))) (data0 P1) \<and>
           (\<forall>y < unat (height_m f).
              take (unat (linesize0 P1))
                (drop (y * (unat (linesize0 P1) + unat (GetPadding (linesize0 P1)))) (pixelsPtr_m f1)) =
              sourceRow (unat (linesize0 P1)) (data0 P1) (unat (height_m f) - 1 - y) \<and>
              take (unat (GetPadding (linesize0 P1)))
                (drop (y * (unat (linesize0 P1) + unat (GetPadding (linesize0 P1))) + unat (linesize0 P1))
                   (pixelsPtr_m f1)) =
              replicate (unat (GetPadding (linesize0 P1))) 0) \<and>
           Update f1 P2 =
             Inr (f\<lparr>pixelsPtr_m :=
                    flipped_padded (unat (height_m f)) (unat (linesize0 P2))
                      (unat (GetPadding (linesize0 P2))) (data0 P2)\<rparr>) \<and>
           Update f1 P2 = Update f P2"
proof -
  define f1 where "f1 = f\<lparr>pixelsPtr_m :=
      flipped_padded (unat (height_m f)) (unat (linesize0 P1))
        (unat (GetPadding (linesize0 P1))) (data0 P1)\<rparr>"
  have u1: "Update f P1 = Inr f1" unfolding f1_def by (rule Update_closed[OF m1])
  have k: "length (pixelsPtr_m f1) = length (pixelsPtr_m f)" "height_m f1 = height_m f"
    using Update_keeps[OF u1] by simp_all
  have m2': "matches f1 P2" using m2 k by (simp add: matches_def)
  have u2: "Update f1 P2 = Inr (f\<lparr>pixelsPtr_m :=
                    flipped_padded (unat (height_m f)) (unat (linesize0 P2))
                      (unat (GetPadding (linesize0 P2))) (data0 P2)\<rparr>)"
    using Update_closed[OF m2'] by (simp add: f1_def)
  have d: "unat (height_m f) * unat (linesize0 P1) \<le> length (data0 P1)"
    using m1 by (simp add: matches_def)
  show ?thesis
    using u1 u2 Update_closed[OF m2] flipped_padded_row[OF d]
    by (intro exI[of _ f1]) (simp add: f1_def)
qed

theorem Update_flips_pads_overwrites_witness:
  "matches (frame2x2 (replicate 16 0xAA)) picture2x2 \<and>
   matches (frame2x2 (replicate 16 0xAA)) picture2x2' \<and>
   (\<exists>f1. Update (frame2x2 (replicate 16 0xAA)) picture2x2 = Inr f1 \<and>
         Update f1 picture2x2' =
           Inr (frame2x2 [27, 28, 29, 30, 31, 32, 0, 0, 21, 22, 23, 24, 25, 26, 0, 0]))"
proof -
  have m: "matches (frame2x2 (replicate 16 0xAA)) picture2x2"
    "matches (frame2x2 (replicate 16 0xAA)) picture2x2'"
    using matches_2x2[of "replicate 16 0xAA"] by simp_all
  have e: "unat (height_m (frame2x2 (replicate 16 0xAA))) = 2"
    "unat (linesize0 picture2x2') = 6" "unat (GetPadding (linesize0 picture2x2')) = 2"
    by (simp_all add: frame2x2_def picture2x2'_def GetPadding_6)
  from Update_flips_pads_overwrites[OF m] obtain f1 where
    "Update (frame2x2 (replicate 16 0xAA)) picture2x2 = Inr f1"
    "Update f1 picture2x2' = Inr (frame2x2 (replicate 16 0xAA)\<lparr>pixelsPtr_m :=
        flipped_padded 2 6 2 (data0 picture2x2')\<rparr>)"
    unfolding e by blast
  then show ?thesis using m by (auto simp: flipped_padded_2x2 frame2x2_def)
qed

text \<open>
  C2. At the input named here the code departs from the claim. The constructor stores a
  picture of 2 by 2 pixels (6 bytes per line) as two rows of 8 bytes, each padded with two
  zero bytes: 16 bytes. \<open>ToBmp\<close> writes the header for width 2, height 2 and copies
  \<open>height_ * width_ * 3 = 12\<close> bytes: the pixel data of the snapshot is not the internal
  storage, it stops in the middle of the second padded row.
\<close>

theorem ToBmp_drops_end_of_padded_rows:
  "Frame_ctor 2 2 picture2x2 =
     Inr \<lparr>width_m = 2, height_m = 2,
          pixelsPtr_m = [7, 8, 9, 10, 11, 12, 0, 0, 1, 2, 3, 4, 5, 6, 0, 0],
          bmpInfo_m = rgb24Header 2 2\<rparr> \<and>
   ToBmp True \<lparr>width_m = 2, height_m = 2,
          pixelsPtr_m = [7, 8, 9, 10, 11, 12, 0, 0, 1, 2, 3, 4, 5, 6, 0, 0],
          bmpInfo_m = rgb24Header 2 2\<rparr> =
     Inr \<lparr>bmpHeader = rgb24Header 2 2, bmpPixels = [7, 8, 9, 10, 11, 12, 0, 0, 1, 2, 3, 4]\<rparr>"
  by code_simp

text \<open>
  C3. Whenever \<open>Draw\<close> paints (it returns normally and the client rectangle is not
  empty), the source rectangle it hands to \<open>DrawDibDraw\<close> is, for a zoom factor
  \<open>z > 1\<close>, of size \<open>(W div z, H div z)\<close> with origin
  \<open>((W - W div z) div 2, (H - H div z) div 2)\<close>, and for \<open>z = 1\<close> the full frame
  \<open>(0, 0, W, H)\<close>; and \<open>SetupZoom\<close> called with 0 or a negative value stores 1.
\<close>

theorem Draw_source_rectangle_SetupZoom:
  assumes "Draw S dbg wnd f zoom cross pip pw pt pl = Inr r"
    and "rcRight (clientRect wnd) \<noteq> rcLeft (clientRect wnd)"
  shows "(\<exists>d. drawDibDraw r = Some d \<and>
            (1 < sint zoom \<longrightarrow>
               dxSrc d = width_m f div zoom \<and> dySrc d = height_m f div zoom \<and>
               xSrc d = (width_m f - width_m f div zoom) div 2 \<and>
               ySrc d = (height_m f - height_m f div zoom) div 2 \<and>
               unat (dxSrc d) = unat (width_m f) div unat zoom \<and>
               unat (dySrc d) = unat (height_m f) div unat zoom \<and>
               unat (xSrc d) = (unat (width_m f) - unat (width_m f) div unat zoom) div 2 \<and>
               unat (ySrc d) = (unat (height_m f) - unat (height_m f) div unat zoom) div 2) \<and>
            (sint zoom = 1 \<longrightarrow>
               xSrc d = 0 \<and> ySrc d = 0 \<and> dxSrc d = width_m f \<and> dySrc d = height_m f)) \<and>
         (sint z \<le> 0 \<longrightarrow> zoom_m (SetupZoom z p) = 1)"
proof -
  from Draw_Inr_calls[OF assms] obtain d where
    d: "drawDibDraw r = Some d" "(xSrc d, ySrc d, dxSrc d, dySrc d) = srcRect f zoom"
    by blast
  have "sint z \<le> 0 \<longrightarrow> zoom_m (SetupZoom z p) = 1" by (simp add: SetupZoom_def Let_def)
  with d(1) srcRect_zoomed[OF d(2)] srcRect_unzoomed[OF d(2)] show ?thesis by simp
qed

theorem Draw_source_rectangle_SetupZoom_witness:
  "Draw noBlit True window100x50 (blackFrame 8 8) 2 0 None 0 0 0 =
     Inr \<lparr>drawnFrame = blackFrame 8 8, stretchDIB = None,
          drawDibDraw = Some \<lparr>xDst = 0, yDst = 0, dxDst = 100, dyDst = 50,
             lpbi = rgb24Header 8 8, lpBits = pixelsPtr_m (blackFrame 8 8),
             xSrc = 2, ySrc = 2, dxSrc = 4, dySrc = 4\<rparr>\<rparr> \<and>
   rcRight (clientRect window100x50) \<noteq> rcLeft (clientRect window100x50) \<and>
   (\<exists>d. drawDibDraw \<lparr>drawnFrame = blackFrame 8 8, stretchDIB = None,
          drawDibDraw = Some \<lparr>xDst = 0, yDst = 0, dxDst = 100, dyDst = 50,
             lpbi = rgb24Header 8 8, lpBits = pixelsPtr_m (blackFrame 8 8),
             xSrc = 2, ySrc = 2, dxSrc = 4, dySrc = 4\<rparr>\<rparr> = Some d \<and>
        unat (dxSrc d) = 8 div 2 \<and> unat (dySrc d) = 8 div 2 \<and>
        unat (xSrc d) = (8 - 8 div 2) div 2 \<and> unat (ySrc d) = (8 - 8 div 2) div 2) \<and>
   zoom_m (SetupZoom (- 3) StreamPlayer_ctor) = 1"
  using Draw_source_rectangle_SetupZoom[OF Draw_8x8_zoom2, of "- 3" StreamPlayer_ctor] Draw_8x8_zoom2
  by (simp add: window100x50_def blackFrame_def)

text \<open>
  C4, as amended. Let the frame be stored without row padding (\<open>3 * W\<close> bytes per row;
  \<open>mem1\<close> is its storage after the overlay block), let the crosshair length \<open>L\<close> be
  positive and the zoom \<open>z\<close> at least 1, and put \<open>c = L div z\<close> and \<open>cw = max 1 (c div
  8)\<close>. If the marker lies inside the frame (\<open>max c cw\<close> fits on both sides of the centre
  \<open>(W div 2, H div 2)\<close> in both directions), then \<open>Draw\<close> paints, and each channel of
  each pixel on the marker is brightened once by \<open>0x6F\<close> while every other byte is
  unchanged. The marker is the horizontal bar of half-length \<open>c\<close> and half-width \<open>cw\<close>
  around the centre and the vertical bar of half-length \<open>c\<close> and half-width \<open>cw\<close>
  outside that bar. Brightening is a saturating addition: the result is the minimum of
  \<open>0xFF\<close> and the sum, so it never wraps.
\<close>

theorem Draw_crosshair_inside_unpadded_frame:
  assumes cross: "0 < sint cross" and zoom: "1 \<le> sint zoom"
    and nz: "rcRight (clientRect wnd) \<noteq> rcLeft (clientRect wnd)"
    and hd: "dbg \<longrightarrow> hdc wnd \<noteq> None"
    and pb: "pipBlit S f pip pw pt pl = Inr (st, mem1)"
    and W: "W = unat (width_m f)" and H: "H = unat (height_m f)"
    and len: "length (pixelsPtr_m f) = 3 * W * H" and fit: "3 * W * H < 2 ^ 32"
    and c: "c = sint cross div sint zoom" and cw: "cw = max 1 (c div 8)"
    and xin: "max c cw \<le> int (W div 2)" "int (W div 2) + max c cw < int W"
    and yin: "max c cw \<le> int (H div 2)" "int (H div 2) + max c cw < int H"
  shows "\<exists>r d. Draw S dbg wnd f zoom cross pip pw pt pl = Inr r \<and>
           drawDibDraw r = Some d \<and> lpBits d = pixelsPtr_m (drawnFrame r) \<and>
           length (pixelsPtr_m (drawnFrame r)) = 3 * W * H \<and>
           (\<forall>x < W. \<forall>y < H. \<forall>k < 3.
              pixelsPtr_m (drawnFrame r) ! (3 * (W * y + x) + k) =
                (if onCross c cw (int x - int (W div 2)) (int y - int (H div 2))
                 then brighten (mem1 ! (3 * (W * y + x) + k)) 0x6F
                 else mem1 ! (3 * (W * y + x) + k))) \<and>
           (\<forall>b. unat (brighten b 0x6F) = min 0xFF (unat b + 0x6F))"
proof -
  let ?mem2 = "painted W H {(dx, dy). onCross c cw dx dy} mem1"
  have l1: "length mem1 = 3 * W * H" using pipBlit_length[OF pb] len by simp
  have dc: "drawCross (width_m f) (height_m f) zoom cross mem1 = Inr ?mem2"
    by (rule drawCross_painted[OF W[symmetric] H[symmetric] l1 fit cross zoom c cw xin yin])
  note D = Draw_unfold[OF nz hd pb dc]
  have nth: "?mem2 ! (3 * (W * y + x) + k) =
                (if onCross c cw (int x - int (W div 2)) (int y - int (H div 2))
                 then brighten (mem1 ! (3 * (W * y + x) + k)) 0x6F
                 else mem1 ! (3 * (W * y + x) + k))"
    if "x < W" "y < H" "k < 3" for x y k
  proof -
    have "W * y + x < W * Suc y" using that(1) by simp
    also have "\<dots> \<le> W * H" using that(2) by (intro mult_le_mono2) simp
    finally have "3 * (W * y + x) + k < length mem1" using that(3) l1 by simp
    from painted_nth[OF that(1) that(3) this] show ?thesis by simp
  qed
  show ?thesis
    unfolding D using nth l1 by (simp add: painted_length brighten_saturates)
qed

theorem Draw_crosshair_inside_unpadded_frame_witness:
  "0 < sint (2 :: int32_t) \<and> 1 \<le> sint (1 :: int32_t) \<and>
   rcRight (clientRect window100x50) \<noteq> rcLeft (clientRect window100x50) \<and>
   length (pixelsPtr_m (blackFrame 8 8)) = 3 * 8 * 8 \<and>
   max 2 (max 1 (2 div 8)) \<le> int (8 div 2) \<and> int (8 div 2) + max 2 (max 1 (2 div 8)) < int 8 \<and>
   (\<exists>r. Draw noBlit True window100x50 (blackFrame 8 8) 1 2 None 0 0 0 = Inr r \<and>
        pixelsPtr_m (drawnFrame r) ! (3 * (8 * 4 + 4) + 0) = 0x6F \<and>
        pixelsPtr_m (drawnFrame r) ! (3 * (8 * 4 + 6) + 2) = 0x6F \<and>
        pixelsPtr_m (drawnFrame r) ! (3 * (8 * 4 + 7) + 0) = 0 \<and>
        pixelsPtr_m (drawnFrame r) ! (3 * (8 * 0 + 0) + 0) = 0)"
proof -
  have pb: "pipBlit noBlit (blackFrame 8 8) None 0 0 0 = Inr (None, replicate 192 0)"
    by (simp add: pipBlit_None blackFrame_8x8)
  have "\<exists>r d. Draw noBlit True window100x50 (blackFrame 8 8) 1 2 None 0 0 0 = Inr r \<and>
           drawDibDraw r = Some d \<and> lpBits d = pixelsPtr_m (drawnFrame r) \<and>
           length (pixelsPtr_m (drawnFrame r)) = 3 * 8 * 8 \<and>
           (\<forall>x < 8. \<forall>y < 8. \<forall>k < 3.
              pixelsPtr_m (drawnFrame r) ! (3 * (8 * y + x) + k) =
                (if onCross 2 1 (int x - int (8 div 2)) (int y - int (8 div 2))
                 then brighten (replicate 192 0 ! (3 * (8 * y + x) + k)) 0x6F
                 else replicate 192 0 ! (3 * (8 * y + x) + k))) \<and>
           (\<forall>b. unat (brighten b 0x6F) = min 0xFF (unat b + 0x6F))"
    by (rule Draw_crosshair_inside_unpadded_frame[where c = 2 and cw = 1 and st = None, OF _ _ _ _ pb])
      (simp_all add: window100x50_def blackFrame_8x8)
  then obtain r where r: "Draw noBlit True window100x50 (blackFrame 8 8) 1 2 None 0 0 0 = Inr r"
    and px: "\<And>x y k. x < 8 \<Longrightarrow> y < 8 \<Longrightarrow> k < 3 \<Longrightarrow>
              pixelsPtr_m (drawnFrame r) ! (3 * (8 * y + x) + k) =
                (if onCross 2 1 (int x - int (8 div 2)) (int y - int (8 div 2))
                 then brighten (replicate 192 0 ! (3 * (8 * y + x) + k)) 0x6F
                 else replicate 192 0 ! (3 * (8 * y + x) + k))"
    by blast
  have "pixelsPtr_m (drawnFrame r) ! (3 * (8 * 4 + 4) + 0) = 0x6F"
    "pixelsPtr_m (drawnFrame r) ! (3 * (8 * 4 + 6) + 2) = 0x6F"
    "pixelsPtr_m (drawnFrame r) ! (3 * (8 * 4 + 7) + 0) = 0"
    "pixelsPtr_m (drawnFrame r) ! (3 * (8 * 0 + 0) + 0) = 0"
    using px[of 4 4 0] px[of 6 4 2] px[of 7 4 0] px[of 0 0 0]
    by (simp_all add: onCross_def brighten_def)
  with r show ?thesis by (simp add: window100x50_def blackFrame_8x8)
qed

text \<open>
  C4 as stated fails where the marker does not fit: in a black frame of 4 by 8 pixels
  (stored without padding) with crosshair length 3 and zoom 1, the horizontal bar of
  half-length 3 around column 2 runs over the row ends into the neighbouring rows, and
  the pixel at column 3 of row 3, which is on the marker, is brightened twice: its
  channel is \<open>0xDE\<close>, not \<open>0x6F\<close>.
\<close>

theorem Draw_crosshair_wraps_counterexample:
  "onCross 3 1 (3 - 2) (3 - 4) \<and>
   pixelsPtr_m (blackFrame 4 8) ! (3 * (4 * 3 + 3)) = 0 \<and>
   brighten 0 0x6F = 0x6F \<and>
   storedByte (3 * (4 * 3 + 3)) (Draw noBlit True window100x50 (blackFrame 4 8) 1 3 None 0 0 0) =
     Inr 0xDE"
proof -
  have "onCross 3 1 (3 - 2) (3 - 4)" by (simp add: onCross_def)
  moreover have "brighten 0 0x6F = 0x6F" by (simp add: brighten_def)
  moreover have "pixelsPtr_m (blackFrame 4 8) ! (3 * (4 * 3 + 3)) = 0"
    by (simp add: blackFrame_def GetPadding_def signed_modulo_int_def)
  moreover have "storedByte (3 * (4 * 3 + 3))
      (Draw noBlit True window100x50 (blackFrame 4 8) 1 3 None 0 0 0) = Inr 0xDE"
    by code_simp
  ultimately show ?thesis by simp
qed

text \<open>
  Why the amended C4 speaks of frames without row padding only: a frame of 3 by 3 pixels
  is stored in rows of 12 bytes (9 of pixels, 3 of padding), while the crosshair loops
  address rows of \<open>3 * width_ = 9\<close> bytes. With crosshair length 1 the marker covers the
  whole frame, yet the stored pixel at column 2 of row 2 (bytes 30 to 32) is left
  unchanged and the padding byte 9 of row 0 is brightened.
\<close>

lemma Draw_crosshair_on_padded_rows:
  "length (pixelsPtr_m (blackFrame 3 3)) = 3 * 12 \<and>
   onCross 1 1 (2 - 1) (2 - 1) \<and>
   storedByte (12 * 2 + 3 * 2) (Draw noBlit True window100x50 (blackFrame 3 3) 1 1 None 0 0 0) = Inr 0 \<and>
   storedByte (12 * 0 + 9) (Draw noBlit True window100x50 (blackFrame 3 3) 1 1 None 0 0 0) = Inr 0x6F"
proof -
  have "length (pixelsPtr_m (blackFrame 3 3)) = 3 * 12"
    by (simp add: blackFrame_def GetPadding_def signed_modulo_int_def)
  moreover have "onCross 1 1 (2 - 1) (2 - 1)" by (simp add: onCross_def)
  moreover have "storedByte (12 * 2 + 3 * 2)
      (Draw noBlit True window100x50 (blackFrame 3 3) 1 1 None 0 0 0) = Inr 0"
    "storedByte (12 * 0 + 9)
      (Draw noBlit True window100x50 (blackFrame 3 3) 1 1 None 0 0 0) = Inr 0x6F"
    by code_simp+
  ultimately show ?thesis by simp
qed

text \<open>
  C5. At the input named here the code departs from the claim. The primary frame is 8 by
  8, the overlay is 4 by 4 and is requested 4 wide with top and left unset. The render
  height is \<open>4 * 4 div 4 = 4\<close> and the centred rectangle has left \<open>(8 - 4) div 2 = 2\<close>
  and top \<open>(8 - 4) div 2 = 2\<close>, as the claim says; but the vertical origin handed to
  \<open>StretchDIB\<close> is the overlay's own height minus top minus render height, \<open>4 - 2 - 4 =
  - 2\<close>: the overlay is not blitted at the centred rectangle (for which the row origin is
  2, counted from either edge), and part of it lies outside the primary buffer.
\<close>

theorem Draw_overlay_row_origin_uses_overlay_height:
  "overlayRect (Draw noBlit True window100x50 (blackFrame 8 8) 1 0 (Some (blackFrame 4 4)) 4 (- 1) (- 1)) =
   Inr (Some (2, - 2, 4, 4))"
  by (simp add: overlayRect_def Draw_def window100x50_def pipBlit_def srcRect_def drawCross_def
      bindE_def blackFrame_def apply_writes_noBlit GetPadding_def signed_modulo_int_def)

text \<open>
  C6, as amended. \<open>Draw\<close> never changes the frame's width, height or header. With the
  crosshair disabled (a length of zero or less) and no overlay it leaves the stored
  pixels unchanged, so painting again gives the same result. (With a crosshair it
  brightens the stored pixels themselves, and with an overlay \<open>StretchDIB\<close> writes into
  the primary's storage.)
\<close>

theorem Draw_idle_keeps_stored_pixels:
  assumes "Draw S dbg wnd f zoom cross pip pw pt pl = Inr r"
  shows "width_m (drawnFrame r) = width_m f \<and> height_m (drawnFrame r) = height_m f \<and>
         bmpInfo_m (drawnFrame r) = bmpInfo_m f \<and>
         (sint cross \<le> 0 \<and> pip = None \<longrightarrow>
            drawnFrame r = f \<and> Draw S dbg wnd (drawnFrame r) zoom cross pip pw pt pl = Inr r)"
proof -
  have "drawnFrame r = f" if c: "sint cross \<le> 0" and n: "pip = None"
  proof (cases "rcRight (clientRect wnd) = rcLeft (clientRect wnd)")
    case True
    with assms show ?thesis by (auto simp: Draw_def)
  next
    case False
    from Draw_Inr_calls[OF assms False] obtain mem1 where
      pb: "pipBlit S f pip pw pt pl = Inr (stretchDIB r, mem1)"
      and dc: "drawCross (width_m f) (height_m f) zoom cross mem1 = Inr (pixelsPtr_m (drawnFrame r))"
      and fr: "drawnFrame r = f\<lparr>pixelsPtr_m := pixelsPtr_m (drawnFrame r)\<rparr>"
      by blast
    from pb n have "mem1 = pixelsPtr_m f" by (simp add: pipBlit_None)
    with dc c have "pixelsPtr_m (drawnFrame r) = pixelsPtr_m f" by (simp add: drawCross_off)
    with fr show ?thesis by (metis Frame.surjective Frame.update_convs(3))
  qed
  with assms Draw_frame_shape[OF assms] show ?thesis by auto
qed

theorem Draw_idle_keeps_stored_pixels_witness:
  "Draw noBlit True window100x50 (blackFrame 8 8) 2 0 None 0 0 0 =
     Inr \<lparr>drawnFrame = blackFrame 8 8, stretchDIB = None,
          drawDibDraw = Some \<lparr>xDst = 0, yDst = 0, dxDst = 100, dyDst = 50,
             lpbi = rgb24Header 8 8, lpBits = pixelsPtr_m (blackFrame 8 8),
             xSrc = 2, ySrc = 2, dxSrc = 4, dySrc = 4\<rparr>\<rparr> \<and>
   sint (0 :: int32_t) \<le> 0 \<and>
   Draw noBlit True window100x50
     (drawnFrame \<lparr>drawnFrame = blackFrame 8 8, stretchDIB = None,
          drawDibDraw = Some \<lparr>xDst = 0, yDst = 0, dxDst = 100, dyDst = 50,
             lpbi = rgb24Header 8 8, lpBits = pixelsPtr_m (blackFrame 8 8),
             xSrc = 2, ySrc = 2, dxSrc = 4, dySrc = 4\<rparr>\<rparr>) 2 0 None 0 0 0 =
     Inr \<lparr>drawnFrame = blackFrame 8 8, stretchDIB = None,
          drawDibDraw = Some \<lparr>xDst = 0, yDst = 0, dxDst = 100, dyDst = 50,
             lpbi = rgb24Header 8 8, lpBits = pixelsPtr_m (blackFrame 8 8),
             xSrc = 2, ySrc = 2, dxSrc = 4, dySrc = 4\<rparr>\<rparr>"
  using Draw_idle_keeps_stored_pixels[OF Draw_8x8_zoom2] Draw_8x8_zoom2 by simp

text \<open>
  C6 as stated fails: on a black frame of 4 by 4 pixels, painting with a crosshair of
  length 1 changes stored byte 30 from 0 to \<open>0x6F\<close>, and painting a second time without
  an \<open>Update\<close> in between shows \<open>0xDE\<close> there, a different image.
\<close>

theorem Draw_crosshair_accumulates_counterexample:
  "pixelsPtr_m (blackFrame 4 4) ! 30 = 0 \<and>
   storedByte 30 (Draw noBlit True window100x50 (blackFrame 4 4) 1 1 None 0 0 0) = Inr 0x6F \<and>
   shownByte 30 (Draw noBlit True window100x50 (blackFrame 4 4) 1 1 None 0 0 0) = Inr (Some 0x6F) \<and>
   shownByte 30 (paintAgain noBlit True window100x50 1 1
       (Draw noBlit True window100x50 (blackFrame 4 4) 1 1 None 0 0 0)) = Inr (Some 0xDE)"
  by code_simp

text \<open>
  C7. While the primary session's frame pointer is null, \<open>GetCurrentFrame\<close> and
  \<open>GetFrameSize\<close> both fail with the "no frame" error (status 1 at the exported entry
  points). Once the frame pointer holds a frame that a successful \<open>Update\<close> produced,
  both succeed (given that the snapshot's memory can be allocated and the frame's storage
  holds its \<open>height * width * 3\<close> bytes) and report the same width and height, those the
  frame had before the \<open>Update\<close>: the dimensions never change.
\<close>

theorem GetCurrentFrame_GetFrameSize_need_frame:
  "(framePtr_m p = None \<longrightarrow>
      GetCurrentFrame alloc_ok p = Inl (RuntimeError ''no frame'') \<and>
      GetFrameSize p = Inl (RuntimeError ''no frame'') \<and>
      exported (GetCurrentFrame alloc_ok p) = Inr (1, None) \<and>
      exported (GetFrameSize p) = Inr (1, None)) \<and>
   (Update f avPicture = Inr f' \<and> framePtr_m p = Some f' \<and>
    unat (height_m f * width_m f * 3) \<le> length (pixelsPtr_m f) \<longrightarrow>
      GetFrameSize p = Inr (width_m f, height_m f) \<and>
      (\<exists>bmp. GetCurrentFrame True p = Inr bmp \<and>
             biWidth (bmpHeader bmp) = width_m f \<and> biHeight (bmpHeader bmp) = height_m f))"
proof (intro conjI impI)
  assume "framePtr_m p = None"
  then show "GetCurrentFrame alloc_ok p = Inl (RuntimeError ''no frame'')"
    and "GetFrameSize p = Inl (RuntimeError ''no frame'')"
    and "exported (GetCurrentFrame alloc_ok p) = Inr (1, None)"
    and "exported (GetFrameSize p) = Inr (1, None)"
    by (simp_all add: GetCurrentFrame_def GetFrameSize_def exported_def)
next
  assume a: "Update f avPicture = Inr f' \<and> framePtr_m p = Some f' \<and>
    unat (height_m f * width_m f * 3) \<le> length (pixelsPtr_m f)"
  then have k: "width_m f' = width_m f" "height_m f' = height_m f"
    "length (pixelsPtr_m f') = length (pixelsPtr_m f)"
    using Update_keeps[of f avPicture f'] by simp_all
  from a k show "GetFrameSize p = Inr (width_m f, height_m f)"
    by (simp add: GetFrameSize_def Width_def Height_def)
  from a k have "unat (height_m f' * width_m f' * 3) \<le> length (pixelsPtr_m f')" by simp
  from ToBmp_ok[OF this] a k
  show "\<exists>bmp. GetCurrentFrame True p = Inr bmp \<and>
             biWidth (bmpHeader bmp) = width_m f \<and> biHeight (bmpHeader bmp) = height_m f"
    by (simp add: GetCurrentFrame_def rgb24Header_def)
qed

theorem GetCurrentFrame_GetFrameSize_need_frame_witness:
  "GetCurrentFrame True StreamPlayer_ctor = Inl (RuntimeError ''no frame'') \<and>
   GetFrameSize StreamPlayer_ctor = Inl (RuntimeError ''no frame'') \<and>
   Update (frame2x2 [7, 8, 9, 10, 11, 12, 0, 0, 1, 2, 3, 4, 5, 6, 0, 0]) picture2x2' =
     Inr (frame2x2 [27, 28, 29, 30, 31, 32, 0, 0, 21, 22, 23, 24, 25, 26, 0, 0]) \<and>
   GetFrameSize (StreamPlayer_ctor\<lparr>framePtr_m :=
       Some (frame2x2 [27, 28, 29, 30, 31, 32, 0, 0, 21, 22, 23, 24, 25, 26, 0, 0])\<rparr>) = Inr (2, 2) \<and>
   (\<exists>bmp. GetCurrentFrame True (StreamPlayer_ctor\<lparr>framePtr_m :=
       Some (frame2x2 [27, 28, 29, 30, 31, 32, 0, 0, 21, 22, 23, 24, 25, 26, 0, 0])\<rparr>) = Inr bmp \<and>
        biWidth (bmpHeader bmp) = 2 \<and> biHeight (bmpHeader bmp) = 2)"
  using GetCurrentFrame_GetFrameSize_need_frame[of StreamPlayer_ctor True "frame2x2 [7, 8, 9, 10, 11, 12, 0, 0, 1, 2, 3, 4, 5, 6, 0, 0]" picture2x2'
      "frame2x2 [27, 28, 29, 30, 31, 32, 0, 0, 21, 22, 23, 24, 25, 26, 0, 0]"]
    GetCurrentFrame_GetFrameSize_need_frame[of "StreamPlayer_ctor\<lparr>framePtr_m :=
       Some (frame2x2 [27, 28, 29, 30, 31, 32, 0, 0, 21, 22, 23, 24, 25, 26, 0, 0])\<rparr>" True
      "frame2x2 [7, 8, 9, 10, 11, 12, 0, 0, 1, 2, 3, 4, 5, 6, 0, 0]" picture2x2'
      "frame2x2 [27, 28, 29, 30, 31, 32, 0, 0, 21, 22, 23, 24, 25, 26, 0, 0]"]
    Update_2x2
  by (simp add: StreamPlayer_ctor_def frame2x2_def)

text \<open>
  C8. The overlay's decode loop posts nothing to the host window, whatever the decoder
  and the stop flag do. When it runs (the run token is free): if the decoder cannot be
  opened the overlay-live flag is false; after at least one iteration the flag is true
  exactly when every iteration so far was a success (a frame was decoded and no stop
  was seen), and the function has returned exactly when some iteration was not (stop,
  end of stream or a thrown error), in which case the flag is false. The paint dispatch
  calls \<open>Draw\<close> on the primary frame with the overlay frame pointer if the flag is set
  and with no overlay otherwise.
\<close>

theorem PlayPiP_silent_flag_and_paint_dispatch:
  "posted (PlayPiP locked run p) = [] \<and>
   (\<not> locked \<longrightarrow>
      \<not> we_have_pip_m (player (PlayPiP locked OpenThrows p)) \<and>
      we_have_pip_m (player (PlayPiP locked (Opened steps) p)) =
        (if steps = [] then we_have_pip_m p else list_all success steps) \<and>
      returned (PlayPiP locked (Opened steps) p) = (\<not> list_all success steps) \<and>
      (returned (PlayPiP locked (Opened steps) p) \<longrightarrow>
         \<not> we_have_pip_m (player (PlayPiP locked (Opened steps) p)))) \<and>
   (framePtr_m p = Some f \<longrightarrow>
      DrawFrame S dbg wnd p =
        bindE (Draw S dbg wnd f (zoom_m p) (cross_m p)
                 (if we_have_pip_m p then framePiPPtr_m p else None)
                 (pip_width_m p) (pip_top_m p) (pip_left_m p))
          (\<lambda>r. Inr (p\<lparr>framePtr_m := Some (drawnFrame r)\<rparr>, Some r)))"
proof (intro conjI impI)
  show "posted (PlayPiP locked run p) = []"
    by (cases run) (simp_all add: PlayPiP_def PlayPiP_loop_posted)
next
  assume "\<not> locked"
  then show "\<not> we_have_pip_m (player (PlayPiP locked OpenThrows p))"
    by (simp add: PlayPiP_def)
next
  assume l: "\<not> locked"
  then show f: "we_have_pip_m (player (PlayPiP locked (Opened steps) p)) =
        (if steps = [] then we_have_pip_m p else list_all success steps)"
    by (auto simp: PlayPiP_def PlayPiP_loop_flag)
  from l show r: "returned (PlayPiP locked (Opened steps) p) = (\<not> list_all success steps)"
    by (simp add: PlayPiP_def PlayPiP_loop_returned)
  assume "returned (PlayPiP locked (Opened steps) p)"
  with f r show "\<not> we_have_pip_m (player (PlayPiP locked (Opened steps) p))" by (cases steps) auto
next
  assume "framePtr_m p = Some f"
  then show "DrawFrame S dbg wnd p =
        bindE (Draw S dbg wnd f (zoom_m p) (cross_m p)
                 (if we_have_pip_m p then framePiPPtr_m p else None)
                 (pip_width_m p) (pip_top_m p) (pip_left_m p))
          (\<lambda>r. Inr (p\<lparr>framePtr_m := Some (drawnFrame r)\<rparr>, Some r))"
    using Draw_no_overlay[of S dbg wnd f "zoom_m p" "cross_m p" "pip_width_m p" "pip_top_m p" "pip_left_m p"]
    by (cases "framePiPPtr_m p") (simp_all add: DrawFrame_def)
qed

theorem PlayPiP_silent_flag_and_paint_dispatch_witness:
  "posted (PlayPiP False (Opened (sampleSteps @ [(True, Leaves (Some (blackFrame 4 4)))])) StreamPlayer_ctor) = [] \<and>
   we_have_pip_m (player (PlayPiP False (Opened sampleSteps) StreamPlayer_ctor)) \<and>
   \<not> returned (PlayPiP False (Opened sampleSteps) StreamPlayer_ctor) \<and>
   returned (PlayPiP False (Opened (sampleSteps @ [(True, Leaves (Some (blackFrame 4 4)))])) StreamPlayer_ctor) \<and>
   \<not> we_have_pip_m (player (PlayPiP False (Opened (sampleSteps @ [(True, Leaves (Some (blackFrame 4 4)))])) StreamPlayer_ctor)) \<and>
   \<not> we_have_pip_m (player (PlayPiP False OpenThrows overlayLive)) \<and>
   framePtr_m overlayLive = Some (blackFrame 8 8) \<and>
   DrawFrame noBlit True window100x50 overlayLive =
     bindE (Draw noBlit True window100x50 (blackFrame 8 8) 1 0 (Some (blackFrame 4 4)) 0 0 0)
       (\<lambda>r. Inr (overlayLive\<lparr>framePtr_m := Some (drawnFrame r)\<rparr>, Some r))"
  using PlayPiP_silent_flag_and_paint_dispatch[of False "Opened (sampleSteps @ [(True, Leaves (Some (blackFrame 4 4)))])" StreamPlayer_ctor
      "sampleSteps @ [(True, Leaves (Some (blackFrame 4 4)))]" "blackFrame 8 8" noBlit True window100x50]
    PlayPiP_silent_flag_and_paint_dispatch[of False "Opened sampleSteps" StreamPlayer_ctor sampleSteps "blackFrame 8 8" noBlit True window100x50]
    PlayPiP_silent_flag_and_paint_dispatch[of False "Opened sampleSteps" overlayLive sampleSteps "blackFrame 8 8" noBlit True window100x50]
  by (simp add: sampleSteps_def overlayLive_def StreamPlayer_ctor_def)

text \<open>
  C9, as amended. \<open>Initialize\<close> checks its four inputs by assertions only, so the
  exported call never reports a failure status. With assertions compiled in, a null
  window handle or a null callback aborts on the failed assertion; in every other case
  (assertions compiled out, or all four inputs non-null) the call returns status 0,
  having stored the parameters and reset the overlay, zoom and crosshair configuration.
\<close>

theorem Initialize_asserts_or_succeeds:
  "Initialize_exported dbg params p =
     (if dbg \<and> anyNull params then Inl AssertionFailed else Inr (0, Some (configured params p)))"
  by (auto simp: Initialize_exported_def Initialize_def exported_def anyNull_def configured_def)

theorem Initialize_asserts_or_succeeds_witness:
  "Initialize_exported True sampleParams StreamPlayer_ctor =
     Inr (0, Some (configured sampleParams StreamPlayer_ctor)) \<and>
   Initialize_exported True nullWindowParams StreamPlayer_ctor = Inl AssertionFailed \<and>
   Initialize_exported False nullWindowParams StreamPlayer_ctor =
     Inr (0, Some (configured nullWindowParams StreamPlayer_ctor))"
  using Initialize_asserts_or_succeeds[of True sampleParams StreamPlayer_ctor]
    Initialize_asserts_or_succeeds[of True nullWindowParams StreamPlayer_ctor]
    Initialize_asserts_or_succeeds[of False nullWindowParams StreamPlayer_ctor]
  by (simp add: anyNull_def sampleParams_def nullWindowParams_def)

text \<open>
  C9 as stated fails: with a null window handle, the exported \<open>Initialize\<close> returns
  status 0 (success) when assertions are compiled out, and aborts without any status
  when they are compiled in; it returns the failure status 1 in neither build.
\<close>

theorem Initialize_null_window_counterexample:
  "anyNull nullWindowParams \<and>
   Initialize_exported False nullWindowParams StreamPlayer_ctor =
     Inr (0, Some (configured nullWindowParams StreamPlayer_ctor)) \<and>
   Initialize_exported True nullWindowParams StreamPlayer_ctor = Inl AssertionFailed"
  by (simp add: Initialize_exported_def Initialize_def exported_def StreamPlayer_ctor_def
      nullWindowParams_def anyNull_def configured_def)

text \<open>
  C10. When \<open>Draw\<close> is given an overlay and a requested overlay width of zero or
  less, and it paints, the overlay is rendered at its native size: the width and height
  handed to \<open>StretchDIB\<close> as the destination extent are the overlay buffer's own width
  and height (which are also the source extent, so nothing is rescaled).
\<close>

theorem Draw_overlay_native_size:
  assumes "Draw S dbg wnd f zoom cross (Some overlay) pip_width pip_top pip_left = Inr r"
    and "rcRight (clientRect wnd) \<noteq> rcLeft (clientRect wnd)"
    and "sint pip_width \<le> 0"
  shows "\<exists>a. stretchDIB r = Some a \<and> DstXE a = width_m overlay \<and> DstYE a = height_m overlay \<and>
             SrcXE a = width_m overlay \<and> SrcYE a = height_m overlay"
proof -
  from Draw_Inr_calls[OF assms(1,2)] obtain mem1 where
    "pipBlit S f (Some overlay) pip_width pip_top pip_left = Inr (stretchDIB r, mem1)" by blast
  from pipBlit_Some[OF this] assms(3) show ?thesis by auto
qed

theorem Draw_overlay_native_size_witness:
  "Draw noBlit True window100x50 (blackFrame 8 8) 1 0 (Some (blackFrame 4 2)) 0 0 1 =
     Inr \<lparr>drawnFrame = blackFrame 8 8,
          stretchDIB = Some \<lparr>biDst = rgb24Header 8 8, DstX = 1, DstY = 0, DstXE = 4, DstYE = 2,
                             biSrc = rgb24Header 4 2, SrcX = 0, SrcY = 0, SrcXE = 4, SrcYE = 2\<rparr>,
          drawDibDraw = Some \<lparr>xDst = 0, yDst = 0, dxDst = 100, dyDst = 50,
             lpbi = rgb24Header 8 8, lpBits = pixelsPtr_m (blackFrame 8 8),
             xSrc = 0, ySrc = 0, dxSrc = 8, dySrc = 8\<rparr>\<rparr> \<and>
   rcRight (clientRect window100x50) \<noteq> rcLeft (clientRect window100x50) \<and>
   sint (0 :: int32_t) \<le> 0 \<and>
   (\<exists>a. stretchDIB \<lparr>drawnFrame = blackFrame 8 8,
          stretchDIB = Some \<lparr>biDst = rgb24Header 8 8, DstX = 1, DstY = 0, DstXE = 4, DstYE = 2,
                             biSrc = rgb24Header 4 2, SrcX = 0, SrcY = 0, SrcXE = 4, SrcYE = 2\<rparr>,
          drawDibDraw = Some \<lparr>xDst = 0, yDst = 0, dxDst = 100, dyDst = 50,
             lpbi = rgb24Header 8 8, lpBits = pixelsPtr_m (blackFrame 8 8),
             xSrc = 0, ySrc = 0, dxSrc = 8, dySrc = 8\<rparr>\<rparr> = Some a \<and>
        DstXE a = width_m (blackFrame 4 2) \<and> DstYE a = height_m (blackFrame 4 2))"
  using Draw_overlay_native_size[OF Draw_overlay_native] Draw_overlay_native
  by (simp add: window100x50_def)

end
